theory Spec2Isabelle
  imports Main "HOL-Library.Sublist" "HOL-Library.Multiset"
begin

section \<open>JavaScript string primitives used by the build script\<close>

text \<open>
  Strings are sequences of code units, modelled as \<^typ>\<open>string\<close>. The three built-ins
  below follow the ECMAScript definitions of \<^verbatim>\<open>String.prototype.indexOf\<close>,
  \<^verbatim>\<open>String.prototype.endsWith\<close> and \<^verbatim>\<open>String.prototype.replace\<close> called with a
  string (not a regular expression) as its pattern.
\<close>

fun indexOf :: "string \<Rightarrow> string \<Rightarrow> nat option" where
  "indexOf [] searchString = (if searchString = [] then Some 0 else None)"
| "indexOf (c # cs) searchString =
     (if prefix searchString (c # cs) then Some 0
      else map_option Suc (indexOf cs searchString))"

definition endsWith :: "string \<Rightarrow> string \<Rightarrow> bool" where
  "endsWith s searchString =
     (let len = length s; searchLength = length searchString
      in if len < searchLength then False
         else drop (len - searchLength) s = searchString)"

text \<open>
  \<^verbatim>\<open>GetSubstitution\<close> for a string pattern: there are no capture groups, so of the
  dollar patterns only \<^verbatim>\<open>$$\<close>, \<^verbatim>\<open>$&\<close>, \<^verbatim>\<open>$`\<close> and \<^verbatim>\<open>$'\<close> are expanded; a
  dollar sign followed by anything else (digits and \<^verbatim>\<open><\<close> included) is copied.
\<close>

fun GetSubstitution :: "string \<Rightarrow> string \<Rightarrow> nat \<Rightarrow> string \<Rightarrow> string" where
  "GetSubstitution matched str position [] = []"
| "GetSubstitution matched str position [c] = [c]"
| "GetSubstitution matched str position (c # d # rest) =
     (if c = CHR ''$'' then
        if d = CHR ''$'' then CHR ''$'' # GetSubstitution matched str position rest
        else if d = CHR ''&'' then matched @ GetSubstitution matched str position rest
        else if d = CHR 0x60 then take position str @ GetSubstitution matched str position rest
        else if d = CHR 0x27 then
          drop (position + length matched) str @ GetSubstitution matched str position rest
        else c # GetSubstitution matched str position (d # rest)
      else c # GetSubstitution matched str position (d # rest))"

text \<open>\<^verbatim>\<open>str.replace(searchString, replaceValue)\<close>: only the first occurrence is replaced.\<close>

definition js_replace :: "string \<Rightarrow> string \<Rightarrow> string \<Rightarrow> string" where
  "js_replace str searchString replaceValue =
     (case indexOf str searchString of
        None \<Rightarrow> str
      | Some position \<Rightarrow>
          take position str
          @ GetSubstitution searchString str position replaceValue
          @ drop (position + length searchString) str)"

section \<open>Data model of \<^verbatim>\<open>build.ts\<close>\<close>

text \<open>
  The numbers that the build computes with are time values of \<^verbatim>\<open>Date\<close> objects
  (milliseconds since the epoch, integers) and their differences, or NaN: the time value
  of an invalid \<^verbatim>\<open>Date\<close> is NaN. A difference of two time values has the sign of the exact
  difference, and only its sign is used.
\<close>

datatype number = NaN | Num int

text \<open>The operators \<^verbatim>\<open>-\<close> and \<^verbatim>\<open>>=\<close> on numbers: NaN is absorbing and compares false.\<close>

fun number_minus :: "number \<Rightarrow> number \<Rightarrow> number" where
  "number_minus (Num a) (Num b) = Num (a - b)"
| "number_minus x y = NaN"

fun number_ge :: "number \<Rightarrow> number \<Rightarrow> bool" where
  "number_ge (Num a) (Num b) = (b \<le> a)"
| "number_ge x y = False"

text \<open>
  \<^verbatim>\<open>date\<close> holds the time value of the \<^verbatim>\<open>Date\<close> object that the frontmatter parser made;
  it is \<open>None\<close> (\<^verbatim>\<open>undefined\<close>) when the frontmatter has no date, which the unchecked cast
  \<^verbatim>\<open>data as PostMeta\<close> lets through. The other optional fields are \<^verbatim>\<open>undefined\<close> when
  \<open>None\<close>.
\<close>

record PostMeta =
  title :: string
  date :: "number option"
  tags :: "string list option"
  draft :: "bool option"

record Post =
  slug :: string
  meta :: PostMeta
  content :: string
  html :: string

datatype error = FrontmatterError string | MarkdownError string | IOError string

text \<open>
  The collaborators that are not code of this repository are parameters of the model:
  the frontmatter parser \<^verbatim>\<open>matter\<close> (gray-matter), the Markdown renderer \<^verbatim>\<open>marked\<close>,
  and the two date renderings of the runtime (\<^verbatim>\<open>toLocaleDateString\<close> with the options
  of \<^verbatim>\<open>formatDate\<close>, on the time value of a \<^verbatim>\<open>Date\<close>, and the conversion of the \<^verbatim>\<open>date\<close>
  field to a string in a template literal).
\<close>

record platform =
  matter :: "string \<Rightarrow> error + PostMeta \<times> string"
  marked :: "string \<Rightarrow> error + string"
  toLocaleDateString :: "number \<Rightarrow> string"
  dateToString :: "number option \<Rightarrow> string"

definition truthy :: "bool option \<Rightarrow> bool" where
  "truthy b = (b = Some True)"

section \<open>\<^verbatim>\<open>parsePost\<close>\<close>

definition parsePost :: "platform \<Rightarrow> string \<Rightarrow> string \<Rightarrow> error + Post option" where
  "parsePost env filename fileContent =
     (if \<not> endsWith filename ''.md'' then Inr None
      else case matter env fileContent of
        Inl e \<Rightarrow> Inl e
      | Inr (data, markdown) \<Rightarrow>
          (let slug' = js_replace filename ''.md'' ''''
           in case marked env markdown of
                Inl e \<Rightarrow> Inl e
              | Inr html' \<Rightarrow>
                  Inr (Some \<lparr>slug = slug', meta = data, content = markdown, html = html'\<rparr>)))"

section \<open>\<^verbatim>\<open>Array.prototype.sort\<close> and \<^verbatim>\<open>filterPostsForIndex\<close>\<close>

text \<open>
  \<^verbatim>\<open>sort\<close> with a comparator is stable (ECMAScript 2019 and later; the project asks for
  Node 20). A comparator result of NaN counts as \<open>0\<close>, and the result matters only
  through its sign. The algorithm is left to the engine. For a consistent comparator
  every conforming engine returns the same list, computed here by stable insertion. For
  a comparator that is not consistent the order is implementation-defined, and insertion
  gives one order that an engine may return.
\<close>

fun SortCompare :: "('a \<Rightarrow> 'a \<Rightarrow> number) \<Rightarrow> 'a \<Rightarrow> 'a \<Rightarrow> int" where
  "SortCompare cmp x y = (case cmp x y of NaN \<Rightarrow> 0 | Num v \<Rightarrow> v)"

fun insort_cmp :: "('a \<Rightarrow> 'a \<Rightarrow> number) \<Rightarrow> 'a \<Rightarrow> 'a list \<Rightarrow> 'a list" where
  "insort_cmp cmp x [] = [x]"
| "insort_cmp cmp x (y # ys) =
     (if SortCompare cmp x y \<le> 0 then x # y # ys else y # insort_cmp cmp x ys)"

definition js_sort :: "('a \<Rightarrow> 'a \<Rightarrow> number) \<Rightarrow> 'a list \<Rightarrow> 'a list" where
  "js_sort cmp xs = foldr (insort_cmp cmp) xs []"

text \<open>
  \<^verbatim>\<open>new Date(d).getTime()\<close>: the copy of a \<^verbatim>\<open>Date\<close> has its time value, and
  \<^verbatim>\<open>new Date(undefined)\<close> is an invalid \<^verbatim>\<open>Date\<close>.
\<close>

fun Date_getTime :: "number option \<Rightarrow> number" where
  "Date_getTime None = NaN"
| "Date_getTime (Some t) = t"

text \<open>
  The comparator \<^verbatim>\<open>(a, b) => new Date(b.meta.date).getTime() - new Date(a.meta.date).getTime()\<close>,
  written twice in the source. It is NaN, and so not consistent, as soon as one of the
  two dates is missing or invalid.
\<close>

definition newestFirst :: "Post \<Rightarrow> Post \<Rightarrow> number" where
  "newestFirst a b = number_minus (Date_getTime (date (meta b))) (Date_getTime (date (meta a)))"

text \<open>\<^verbatim>\<open>a.meta.date >= b.meta.date\<close>: both sides are converted to numbers.\<close>

definition date_ge :: "Post \<Rightarrow> Post \<Rightarrow> bool" where
  "date_ge a b = number_ge (Date_getTime (date (meta a))) (Date_getTime (date (meta b)))"

definition valid_date :: "Post \<Rightarrow> bool" where
  "valid_date p = (Date_getTime (date (meta p)) \<noteq> NaN)"

text \<open>The time value of a post with a valid date, for stating how such posts are ordered.\<close>

fun time_of :: "Post \<Rightarrow> int" where
  "time_of p = (case Date_getTime (date (meta p)) of NaN \<Rightarrow> 0 | Num t \<Rightarrow> t)"

definition filterPostsForIndex :: "Post list \<Rightarrow> Post list" where
  "filterPostsForIndex posts =
     js_sort newestFirst (filter (\<lambda>post. \<not> truthy (draft (meta post))) posts)"

subsection \<open>The same function over a store of array objects\<close>

text \<open>
  Arrays are objects: \<^verbatim>\<open>filter\<close> allocates a new array and \<^verbatim>\<open>sort\<close> sorts the array it
  is called on in place and returns that same array. A store is the list of the array
  objects allocated so far, a reference is an index into it.
\<close>

type_synonym 'a store = "'a list list"

definition Array_filter :: "('a \<Rightarrow> bool) \<Rightarrow> nat \<Rightarrow> 'a store \<Rightarrow> (nat \<times> 'a store) option" where
  "Array_filter f a h =
     (if a < length h then Some (length h, h @ [filter f (h ! a)]) else None)"

definition Array_sort :: "('a \<Rightarrow> 'a \<Rightarrow> number) \<Rightarrow> nat \<Rightarrow> 'a store \<Rightarrow> (nat \<times> 'a store) option" where
  "Array_sort cmp a h =
     (if a < length h then Some (a, h[a := js_sort cmp (h ! a)]) else None)"

definition filterPostsForIndex_store :: "nat \<Rightarrow> Post store \<Rightarrow> (nat \<times> Post store) option" where
  "filterPostsForIndex_store posts h =
     (case Array_filter (\<lambda>post. \<not> truthy (draft (meta post))) posts h of
        None \<Rightarrow> None
      | Some (filtered, h') \<Rightarrow> Array_sort newestFirst filtered h')"

section \<open>The file system as the build sees it\<close>

text \<open>
  Reads go to \<^verbatim>\<open>posts/\<close> and \<^verbatim>\<open>templates/\<close>, writes to \<^verbatim>\<open>docs/\<close>, so the build never
  reads a path it has written. The effect of a build is the sequence of its
  \<^verbatim>\<open>writeFile\<close> calls, oldest first. Console output is left out.
\<close>

record filesystem =
  dirs :: "string \<rightharpoonup> string list"
  files :: "string \<rightharpoonup> string"
  mkdirOk :: bool
  writable :: "string \<Rightarrow> bool"
  writes :: "(string \<times> string) list"

definition POSTS_DIR :: string where "POSTS_DIR = ''posts''"
definition OUTPUT_DIR :: string where "OUTPUT_DIR = ''docs''"
definition TEMPLATES_DIR :: string where "TEMPLATES_DIR = ''templates''"

text \<open>
  \<^verbatim>\<open>path.join\<close> of a directory name and a file name that holds no separator and is
  neither \<^verbatim>\<open>.\<close> nor \<^verbatim>\<open>..\<close>, the only way it is called here.
\<close>

definition path_join :: "string \<Rightarrow> string \<Rightarrow> string" where
  "path_join dir name = dir @ ''/'' @ name"

definition readdir :: "filesystem \<Rightarrow> string \<Rightarrow> error + string list" where
  "readdir fs dir = (case dirs fs dir of None \<Rightarrow> Inl (IOError dir) | Some names \<Rightarrow> Inr names)"

definition readFile :: "filesystem \<Rightarrow> string \<Rightarrow> error + string" where
  "readFile fs path = (case files fs path of None \<Rightarrow> Inl (IOError path) | Some text \<Rightarrow> Inr text)"

definition writeFile :: "string \<Rightarrow> string \<Rightarrow> filesystem \<Rightarrow> error + filesystem" where
  "writeFile path text fs =
     (if writable fs path then Inr (fs\<lparr>writes := writes fs @ [(path, text)]\<rparr>)
      else Inl (IOError path))"

definition mkdir :: "string \<Rightarrow> filesystem \<Rightarrow> error + filesystem" where
  "mkdir dir fs = (if mkdirOk fs then Inr fs else Inl (IOError dir))"

section \<open>The build pipeline\<close>

definition readTemplate :: "filesystem \<Rightarrow> string \<Rightarrow> error + string" where
  "readTemplate fs name = readFile fs (path_join TEMPLATES_DIR (name @ ''.html''))"

fun getPosts_loop :: "platform \<Rightarrow> filesystem \<Rightarrow> string list \<Rightarrow> Post list \<Rightarrow> error + Post list" where
  "getPosts_loop env fs [] posts = Inr posts"
| "getPosts_loop env fs (file # rest) posts =
     (case readFile fs (path_join POSTS_DIR file) of
        Inl e \<Rightarrow> Inl e
      | Inr text \<Rightarrow>
          (case parsePost env file text of
             Inl e \<Rightarrow> Inl e
           | Inr None \<Rightarrow> getPosts_loop env fs rest posts
           | Inr (Some post) \<Rightarrow> getPosts_loop env fs rest (posts @ [post])))"

definition getPosts :: "platform \<Rightarrow> filesystem \<Rightarrow> error + Post list" where
  "getPosts env fs =
     (case readdir fs POSTS_DIR of
        Inl e \<Rightarrow> Inl e
      | Inr names \<Rightarrow>
          (case getPosts_loop env fs names [] of
             Inl e \<Rightarrow> Inl e
           | Inr posts \<Rightarrow> Inr (js_sort newestFirst posts)))"

definition formatDate :: "platform \<Rightarrow> number option \<Rightarrow> string" where
  "formatDate env d = toLocaleDateString env (Date_getTime d)"

text \<open>The string \<^verbatim>\<open>html\<close> that \<^verbatim>\<open>buildPost\<close> computes, and the write that follows it.\<close>

definition buildPost_html :: "platform \<Rightarrow> Post \<Rightarrow> string \<Rightarrow> string" where
  "buildPost_html env post template =
     js_replace
       (js_replace
          (js_replace template ''{{title}}'' (title (meta post)))
          ''{{date}}'' (formatDate env (date (meta post))))
       ''{{content}}'' (html post)"

definition buildPost :: "platform \<Rightarrow> Post \<Rightarrow> string \<Rightarrow> filesystem \<Rightarrow> error + filesystem" where
  "buildPost env post template fs =
     writeFile (path_join OUTPUT_DIR (slug post @ ''.html'')) (buildPost_html env post template) fs"

fun join :: "string \<Rightarrow> string list \<Rightarrow> string" where
  "join sep [] = []"
| "join sep [x] = x"
| "join sep (x # y # ys) = x @ sep @ join sep (y # ys)"

definition postListItem :: "platform \<Rightarrow> Post \<Rightarrow> string" where
  "postListItem env post =
     [CHR 0x0A] @ ''    <article>'' @ [CHR 0x0A]
     @ ''      <h2><a href='' @ [CHR 0x22] @ slug post @ ''.html'' @ [CHR 0x22] @ ''>''
     @ title (meta post) @ ''</a></h2>'' @ [CHR 0x0A]
     @ ''      <time datetime='' @ [CHR 0x22] @ dateToString env (date (meta post)) @ [CHR 0x22]
     @ ''>'' @ formatDate env (date (meta post)) @ ''</time>'' @ [CHR 0x0A]
     @ ''    </article>''"

definition buildIndex_html :: "platform \<Rightarrow> Post list \<Rightarrow> string \<Rightarrow> string" where
  "buildIndex_html env posts template =
     js_replace template ''{{posts}}'' (join [CHR 0x0A] (map (postListItem env) posts))"

definition buildIndex :: "platform \<Rightarrow> Post list \<Rightarrow> string \<Rightarrow> filesystem \<Rightarrow> error + filesystem" where
  "buildIndex env posts template fs =
     writeFile (path_join OUTPUT_DIR ''index.html'') (buildIndex_html env posts template) fs"

text \<open>\<^verbatim>\<open>copyStyles\<close> swallows every failure of its read and of its write.\<close>

definition copyStyles :: "filesystem \<Rightarrow> filesystem" where
  "copyStyles fs =
     (case readFile fs (path_join TEMPLATES_DIR ''styles.css'') of
        Inl e \<Rightarrow> fs
      | Inr styles \<Rightarrow>
          (case writeFile (path_join OUTPUT_DIR ''styles.css'') styles fs of
             Inl e \<Rightarrow> fs
           | Inr fs' \<Rightarrow> fs'))"

text \<open>
  \<^verbatim>\<open>Promise.all(allPosts.map((post) => buildPost(post, postTemplate)))\<close>: every call is
  made, in list order, and each issues its write before the first one settles; the
  whole fails when one of them fails.
\<close>

fun buildPosts :: "platform \<Rightarrow> Post list \<Rightarrow> string \<Rightarrow> filesystem \<Rightarrow> error + filesystem" where
  "buildPosts env [] template fs = Inr fs"
| "buildPosts env (post # rest) template fs =
     (case buildPost env post template fs of
        Inl e \<Rightarrow> Inl e
      | Inr fs' \<Rightarrow> buildPosts env rest template fs')"

definition build :: "platform \<Rightarrow> filesystem \<Rightarrow> error + filesystem" where
  "build env fs =
     (case mkdir OUTPUT_DIR fs of
        Inl e \<Rightarrow> Inl e
      | Inr fs1 \<Rightarrow>
     (case readTemplate fs1 ''index'' of
        Inl e \<Rightarrow> Inl e
      | Inr indexTemplate \<Rightarrow>
     (case readTemplate fs1 ''post'' of
        Inl e \<Rightarrow> Inl e
      | Inr postTemplate \<Rightarrow>
     (case getPosts env fs1 of
        Inl e \<Rightarrow> Inl e
      | Inr allPosts \<Rightarrow>
     (case buildPosts env allPosts postTemplate fs1 of
        Inl e \<Rightarrow> Inl e
      | Inr fs2 \<Rightarrow>
     (let indexPosts = filterPostsForIndex allPosts
      in case buildIndex env indexPosts indexTemplate fs2 of
           Inl e \<Rightarrow> Inl e
         | Inr fs3 \<Rightarrow> Inr (copyStyles fs3)))))))"

section \<open>Dev mode (\<^verbatim>\<open>dev.ts\<close>)\<close>

text \<open>
  The dev script is event driven: file-watcher events, the debounce timer, the exit of
  the TypeScript compiler and the settling of a build each run a piece of code to
  completion on the one thread. The model is a state machine over these events, with a
  clock in milliseconds. A function of the source that awaits is split at its
  \<^verbatim>\<open>await\<close>: the part before runs in the step that calls it, the part after in the
  step of the event awaited.

  The module variables \<^verbatim>\<open>rebuildTimeout\<close>, \<^verbatim>\<open>isRebuilding\<close> and \<^verbatim>\<open>serverProcess\<close> are
  fields of the state. Beside them the state holds what the runtime holds: the armed
  timers, the listeners of the three watchers, the number of compiler runs and of
  \<^verbatim>\<open>build()\<close> calls that have started and not settled, and the console lines of the
  rebuild cycle.
\<close>

datatype line =
    ChangeDetected string
  | RecompilingTypeScript
  | CompilationComplete
  | CompilationFailed
  | RebuildFailed
  | BuildInProgressSkipping
  | RegeneratingSite
  | SiteRegenerated
  | RegenerationFailed

record timer =
  handle :: nat
  due :: nat
  filePath :: string
  needsTypeScriptRecompile :: bool

datatype watcher = srcWatcher | postsWatcher | templatesWatcher

datatype kind = Ready | Change | Add | Unlink | AddDir | UnlinkDir

text \<open>
  The listeners are the closures of \<^verbatim>\<open>startDevMode\<close>, in the revision of the script that
  watches directories and registers its change handlers inside the \<^verbatim>\<open>ready\<close> listeners.
\<close>

datatype listener =
    SrcReady
  | SrcChange
  | PostsReady
  | HandlePostChange
  | TemplatesReady
  | TemplatesChange

record dev_state =
  now :: nat
  nextHandle :: nat
  timers :: "timer list"
  listeners :: "watcher \<Rightarrow> (kind \<times> listener) list"
  compiling :: nat
  building :: nat
  console :: "line list"
  rebuildTimeout :: "nat option"
  isRebuilding :: bool
  serverProcess :: bool

definition DEBOUNCE_MS :: nat where "DEBOUNCE_MS = 300"

definition log :: "line \<Rightarrow> dev_state \<Rightarrow> dev_state" where
  "log l s = s\<lparr>console := console s @ [l]\<rparr>"

subsection \<open>Timers\<close>

text \<open>
  \<^verbatim>\<open>setTimeout\<close> arms a timer that captures the arguments of the \<^verbatim>\<open>scheduleRebuild\<close>
  call that made it; \<^verbatim>\<open>clearTimeout\<close> disarms the timer of a handle and does nothing
  for a timer that has fired.
\<close>

definition setTimeout :: "string \<Rightarrow> bool \<Rightarrow> nat \<Rightarrow> dev_state \<Rightarrow> nat \<times> dev_state" where
  "setTimeout path recompile delay s =
     (nextHandle s,
      s\<lparr>nextHandle := Suc (nextHandle s),
        timers := timers s @ [\<lparr>handle = nextHandle s, due = now s + delay,
                               filePath = path, needsTypeScriptRecompile = recompile\<rparr>]\<rparr>)"

definition clearTimeout :: "nat \<Rightarrow> dev_state \<Rightarrow> dev_state" where
  "clearTimeout h s = s\<lparr>timers := filter (\<lambda>t. handle t \<noteq> h) (timers s)\<rparr>"

definition scheduleRebuild :: "string \<Rightarrow> bool \<Rightarrow> dev_state \<Rightarrow> dev_state" where
  "scheduleRebuild path recompile s =
     (let s1 = (case rebuildTimeout s of None \<Rightarrow> s | Some h \<Rightarrow> clearTimeout h s);
          (h, s2) = setTimeout path recompile DEBOUNCE_MS s1
      in s2\<lparr>rebuildTimeout := Some h\<rparr>)"

subsection \<open>The rebuild cycle\<close>

text \<open>\<^verbatim>\<open>regenerateSite\<close> up to \<^verbatim>\<open>await build()\<close>, and from there on.\<close>

definition regenerateSite_begin :: "dev_state \<Rightarrow> dev_state" where
  "regenerateSite_begin s =
     (if isRebuilding s then log BuildInProgressSkipping s
      else (log RegeneratingSite (s\<lparr>isRebuilding := True\<rparr>))\<lparr>building := Suc (building s)\<rparr>)"

definition regenerateSite_settle :: "bool \<Rightarrow> dev_state \<Rightarrow> dev_state" where
  "regenerateSite_settle ok s =
     (log (if ok then SiteRegenerated else RegenerationFailed) s)\<lparr>isRebuilding := False\<rparr>"

text \<open>\<^verbatim>\<open>recompileTypeScript\<close> up to \<^verbatim>\<open>await execAsync(...)\<close>.\<close>

definition recompileTypeScript_begin :: "dev_state \<Rightarrow> dev_state" where
  "recompileTypeScript_begin s = (log RecompilingTypeScript s)\<lparr>compiling := Suc (compiling s)\<rparr>"

text \<open>
  The timer callback of \<^verbatim>\<open>scheduleRebuild\<close>, and its continuation when the compiler has
  exited: on success \<^verbatim>\<open>regenerateSite\<close> is called, on failure the error is rethrown by
  \<^verbatim>\<open>recompileTypeScript\<close> and caught by the callback.
\<close>

definition timer_callback :: "string \<Rightarrow> bool \<Rightarrow> dev_state \<Rightarrow> dev_state" where
  "timer_callback path recompile s =
     (let s1 = log (ChangeDetected path) s
      in if recompile then recompileTypeScript_begin s1 else regenerateSite_begin s1)"

definition timer_callback_resume :: "bool \<Rightarrow> dev_state \<Rightarrow> dev_state" where
  "timer_callback_resume ok s =
     (if ok then regenerateSite_begin (log CompilationComplete s)
      else log RebuildFailed (log CompilationFailed s))"

text \<open>
  Time passes: the timers that are due fire, in the order in which they were armed
  (all timers have the same delay, so this is the order of their due times).
\<close>

definition elapse :: "nat \<Rightarrow> dev_state \<Rightarrow> dev_state" where
  "elapse d s =
     (let t = now s + d;
          fired = filter (\<lambda>tm. due tm \<le> t) (timers s);
          s1 = s\<lparr>now := t, timers := filter (\<lambda>tm. \<not> due tm \<le> t) (timers s)\<rparr>
      in foldl (\<lambda>st tm. timer_callback (filePath tm) (needsTypeScriptRecompile tm) st) s1 fired)"

subsection \<open>Watchers\<close>

text \<open>
  A watcher is an event emitter: \<^verbatim>\<open>on\<close> appends a listener, and emitting an event
  calls, in the order of registration, the listeners that were registered for it when
  the event was emitted.
\<close>

definition watcher_on :: "watcher \<Rightarrow> kind \<Rightarrow> listener \<Rightarrow> dev_state \<Rightarrow> dev_state" where
  "watcher_on w k l s = s\<lparr>listeners := (listeners s)(w := listeners s w @ [(k, l)])\<rparr>"

fun call_listener :: "listener \<Rightarrow> string \<Rightarrow> dev_state \<Rightarrow> dev_state" where
  "call_listener SrcReady path s = watcher_on srcWatcher Change SrcChange s"
| "call_listener SrcChange path s =
     (if endsWith path ''.ts'' then scheduleRebuild path True s else s)"
| "call_listener PostsReady path s =
     watcher_on postsWatcher Unlink HandlePostChange
       (watcher_on postsWatcher Add HandlePostChange
          (watcher_on postsWatcher Change HandlePostChange s))"
| "call_listener HandlePostChange path s =
     (if endsWith path ''.md'' then scheduleRebuild path False s else s)"
| "call_listener TemplatesReady path s = watcher_on templatesWatcher Change TemplatesChange s"
| "call_listener TemplatesChange path s =
     (if endsWith path ''.html'' \<or> endsWith path ''.css'' then scheduleRebuild path False s
      else s)"

definition watcher_emit :: "watcher \<Rightarrow> kind \<Rightarrow> string \<Rightarrow> dev_state \<Rightarrow> dev_state" where
  "watcher_emit w k path s =
     foldl (\<lambda>st l. call_listener l path st) s
       (map snd (filter (\<lambda>kl. fst kl = k) (listeners s w)))"

subsection \<open>Startup and the event loop\<close>

definition module_init :: dev_state where
  "module_init =
     \<lparr>now = 0, nextHandle = 0, timers = [], listeners = (\<lambda>w. []), compiling = 0, building = 0,
      console = [], rebuildTimeout = None, isRebuilding = False, serverProcess = False\<rparr>"

definition startServer :: "dev_state \<Rightarrow> dev_state" where
  "startServer s = s\<lparr>serverProcess := True\<rparr>"

text \<open>
  \<^verbatim>\<open>startDevMode\<close> awaits the initial build before anything else; when that build fails
  the process exits (\<open>None\<close>). The argument is the outcome of the initial build. After
  the build the server is started and each watcher is given its \<^verbatim>\<open>ready\<close> listener.
\<close>

definition startDevMode_watch :: "dev_state \<Rightarrow> dev_state" where
  "startDevMode_watch s =
     watcher_on templatesWatcher Ready TemplatesReady
       (watcher_on postsWatcher Ready PostsReady
         (watcher_on srcWatcher Ready SrcReady s))"

definition startDevMode :: "bool \<Rightarrow> dev_state option" where
  "startDevMode initialBuildOk =
     (if \<not> initialBuildOk then None
      else Some (startDevMode_watch (startServer module_init)))"

datatype event =
    Watch watcher kind string
  | Elapse nat
  | TscExit bool
  | BuildSettled bool

text \<open>
  An exit of the compiler or the settling of a build is an event only while one is
  running; elsewhere the step leaves the state as it is.
\<close>

fun step :: "event \<Rightarrow> dev_state \<Rightarrow> dev_state" where
  "step (Watch w k path) s = watcher_emit w k path s"
| "step (Elapse d) s = elapse d s"
| "step (TscExit ok) s =
     (if compiling s = 0 then s
      else timer_callback_resume ok (s\<lparr>compiling := compiling s - 1\<rparr>))"
| "step (BuildSettled ok) s =
     (if building s = 0 then s
      else regenerateSite_settle ok (s\<lparr>building := building s - 1\<rparr>))"

fun run :: "event list \<Rightarrow> dev_state \<Rightarrow> dev_state" where
  "run [] s = s"
| "run (e # es) s = run es (step e s)"

text \<open>The state in which the event loop starts, after a successful initial build.\<close>

definition dev_started :: dev_state where
  "dev_started = startDevMode_watch (startServer module_init)"

text \<open>The trigger files of the rebuild cycles that have run, read off the console.\<close>

fun cycles :: "line list \<Rightarrow> string list" where
  "cycles [] = []"
| "cycles (ChangeDetected path # ls) = path # cycles ls"
| "cycles (l # ls) = cycles ls"

text \<open>The shape of the timer table that \<^verbatim>\<open>scheduleRebuild\<close> maintains.\<close>

definition timer_inv :: "dev_state \<Rightarrow> bool" where
  "timer_inv s =
     (timers s = [] \<or> map (\<lambda>t. Some (handle t)) (timers s) = [rebuildTimeout s])"

definition guard_inv :: "dev_state \<Rightarrow> bool" where
  "guard_inv s = (building s = (if isRebuilding s then 1 else 0))"

text \<open>The \<^verbatim>\<open>ready\<close> listener that \<^verbatim>\<open>startDevMode\<close> gives each watcher.\<close>

fun ready_listener :: "watcher \<Rightarrow> listener" where
  "ready_listener srcWatcher = SrcReady"
| "ready_listener postsWatcher = PostsReady"
| "ready_listener templatesWatcher = TemplatesReady"

text \<open>
  Every listener registered for \<^verbatim>\<open>ready\<close> is the watcher's own \<^verbatim>\<open>ready\<close> listener, and
  every other listener is one of the three change handlers.
\<close>

definition lis_inv :: "dev_state \<Rightarrow> bool" where
  "lis_inv s =
     (\<forall>w. \<forall>kl \<in> set (listeners s w).
        (fst kl = Ready \<longrightarrow> snd kl = ready_listener w)
      \<and> (fst kl \<noteq> Ready \<longrightarrow> snd kl \<in> {SrcChange, HandlePostChange, TemplatesChange}))"

text \<open>A burst of watcher events and the passing of time, for evaluating the model.\<close>

definition sample_events :: "event list" where
  "sample_events =
     [Watch postsWatcher Add ''posts/hello.md'',
      Watch postsWatcher Ready '''',
      Watch postsWatcher Change ''posts/hello.md'',
      Elapse 300]"

definition sample_events2 :: "event list" where
  "sample_events2 =
     [Watch postsWatcher Add ''posts/hello.md'',
      Watch postsWatcher Ready '''',
      Watch postsWatcher Change ''posts/hello.md'',
      Elapse 300,
      Watch postsWatcher Change ''posts/second.md'']"

text \<open>A build in flight and a pending timer for a TypeScript source file.\<close>

definition sample_events3 :: "event list" where
  "sample_events3 =
     [Watch postsWatcher Add ''posts/hello.md'',
      Watch postsWatcher Ready '''',
      Watch postsWatcher Change ''posts/hello.md'',
      Elapse 300,
      Watch srcWatcher Ready '''',
      Watch srcWatcher Change ''src/build.ts'']"

text \<open>
  The number of builds that \<^verbatim>\<open>regenerateSite\<close> has started, read off the console: it
  prints its \<^verbatim>\<open>Regenerating site...\<close> line right before each call of \<^verbatim>\<open>build()\<close>, and
  nowhere else.
\<close>

fun builds_started :: "line list \<Rightarrow> nat" where
  "builds_started [] = 0"
| "builds_started (RegeneratingSite # ls) = Suc (builds_started ls)"
| "builds_started (l # ls) = builds_started ls"

section \<open>Sample inputs\<close>

text \<open>
  A stand-in for the external collaborators, for evaluating the model on concrete
  inputs: the first line of a file is its title, a file that starts with \<^verbatim>\<open>DRAFT\<close>
  is a draft, Markdown is passed through, and every date is rendered the same way.
\<close>

definition sample_env :: platform where
  "sample_env =
     \<lparr>matter = (\<lambda>text. Inr (\<lparr>title = takeWhile (\<lambda>c. c \<noteq> CHR 0x0A) text,
                                date = Some (Num (int (length text))),
                                tags = None,
                                draft = (if prefix ''DRAFT'' text then Some True else None)\<rparr>,
                              text)),
      marked = (\<lambda>markdown. Inr markdown),
      toLocaleDateString = (\<lambda>d. ''January 17, 2026''),
      dateToString = (\<lambda>d. ''Sat Jan 17 2026'')\<rparr>"

definition post_old :: Post where
  "post_old = \<lparr>slug = ''old'', meta = \<lparr>title = ''Old'', date = Some (Num 1704067200000), tags = None, draft = None\<rparr>,
               content = '''', html = ''''\<rparr>"

definition post_draft :: Post where
  "post_draft = \<lparr>slug = ''draft'', meta = \<lparr>title = ''Draft'', date = Some (Num 1705276800000), tags = None, draft = Some True\<rparr>,
                 content = '''', html = ''''\<rparr>"

definition post_new :: Post where
  "post_new = \<lparr>slug = ''new'', meta = \<lparr>title = ''New'', date = Some (Num 1704844800000), tags = None, draft = None\<rparr>,
               content = '''', html = ''''\<rparr>"

definition sample_fs :: filesystem where
  "sample_fs =
     \<lparr>dirs = [''posts'' \<mapsto> [''hello.md'', ''secret.md'', ''notes.txt'']],
      files = [''posts/hello.md'' \<mapsto> ''Hello World'',
               ''posts/secret.md'' \<mapsto> ''DRAFT L Combinator'',
               ''posts/notes.txt'' \<mapsto> ''todo'',
               ''templates/index.html'' \<mapsto> ''<ul>{{posts}}</ul>'',
               ''templates/post.html'' \<mapsto> ''<h1>{{title}}</h1>{{content}}''],
      mkdirOk = True,
      writable = (\<lambda>path. True),
      writes = []\<rparr>"

definition post_secret :: Post where
  "post_secret =
     \<lparr>slug = ''secret'',
      meta = \<lparr>title = ''DRAFT L Combinator'', date = Some (Num 18), tags = None, draft = Some True\<rparr>,
      content = ''DRAFT L Combinator'', html = ''DRAFT L Combinator''\<rparr>"

definition post_hello :: Post where
  "post_hello =
     \<lparr>slug = ''hello'',
      meta = \<lparr>title = ''Hello World'', date = Some (Num 11), tags = None, draft = None\<rparr>,
      content = ''Hello World'', html = ''Hello World''\<rparr>"

definition sample_writes :: "(string \<times> string) list" where
  "sample_writes =
     [(''docs/secret.html'', ''<h1>DRAFT L Combinator</h1>DRAFT L Combinator''),
      (''docs/hello.html'', ''<h1>Hello World</h1>Hello World''),
      (''docs/index.html'', ''<ul>'' @ postListItem sample_env post_hello @ ''</ul>'')]"

text \<open>Four posts, none a draft, the second without a date.\<close>

definition dated :: "string \<Rightarrow> number option \<Rightarrow> Post" where
  "dated name d =
     \<lparr>slug = name, meta = \<lparr>title = name, date = d, tags = None, draft = None\<rparr>,
      content = [], html = []\<rparr>"

definition undated_posts :: "Post list" where
  "undated_posts =
     [dated ''a'' (Some (Num 2000)), dated ''b'' None,
      dated ''c'' (Some (Num 3000)), dated ''d'' (Some (Num 1000))]"

section \<open>Strings: basic facts\<close>

lemma endsWith_suffix: "endsWith s t \<longleftrightarrow> suffix t s"
proof
  assume "endsWith s t"
  then have "drop (length s - length t) s = t"
    by (simp add: endsWith_def Let_def split: if_splits)
  then have "s = take (length s - length t) s @ t"
    by (metis append_take_drop_id)
  then show "suffix t s"
    by (metis suffixI)
next
  assume "suffix t s"
  then obtain zs where "s = zs @ t"
    by (auto simp: suffix_def)
  then show "endsWith s t"
    by (simp add: endsWith_def)
qed

section \<open>Properties of \<^verbatim>\<open>parsePost\<close>\<close>

text \<open>
  Claim C5. \<^verbatim>\<open>parsePost\<close> returns \<^verbatim>\<open>null\<close> exactly when the file name does not end in
  \<^verbatim>\<open>.md\<close>. For a name that ends in \<^verbatim>\<open>.md\<close>, a failure of the frontmatter parser (or
  of the Markdown renderer) is the failure of the whole call, and otherwise the call
  returns a post that carries the parsed metadata, the Markdown body and its rendering.
\<close>

theorem parsePost_absent_iff:
  "(parsePost env filename fileContent = Inr None \<longleftrightarrow> \<not> endsWith filename ''.md'')
   \<and> (endsWith filename ''.md'' \<longrightarrow>
        (\<forall>e. matter env fileContent = Inl e \<longrightarrow> parsePost env filename fileContent = Inl e)
      \<and> (\<forall>data markdown.
            matter env fileContent = Inr (data, markdown) \<longrightarrow>
              (\<forall>e. marked env markdown = Inl e \<longrightarrow> parsePost env filename fileContent = Inl e)
            \<and> (\<forall>h. marked env markdown = Inr h \<longrightarrow>
                  (\<exists>post. parsePost env filename fileContent = Inr (Some post)
                     \<and> meta post = data \<and> content post = markdown \<and> html post = h))))"
  by (auto simp: parsePost_def Let_def split: sum.splits prod.splits)

theorem parsePost_absent_iff_witness:
  "parsePost sample_env ''notes.txt'' ''Hello'' = Inr None
   \<and> \<not> endsWith ''notes.txt'' ''.md''
   \<and> endsWith ''hello.md'' ''.md''
   \<and> matter sample_env ''Hello'' = Inr (\<lparr>title = ''Hello'', date = Some (Num 5), tags = None, draft = None\<rparr>, ''Hello'')
   \<and> marked sample_env ''Hello'' = Inr ''Hello''
   \<and> (\<exists>post. parsePost sample_env ''hello.md'' ''Hello'' = Inr (Some post)
         \<and> meta post = \<lparr>title = ''Hello'', date = Some (Num 5), tags = None, draft = None\<rparr>
         \<and> content post = ''Hello'' \<and> html post = ''Hello'')"
  using parsePost_absent_iff [of sample_env "''notes.txt''" "''Hello''"]
    parsePost_absent_iff [of sample_env "''hello.md''" "''Hello''"]
  by (simp add: endsWith_def sample_env_def)

text \<open>
  Claim C4. The slug is computed by \<^verbatim>\<open>filename.replace(".md", "")\<close>, which removes the
  first occurrence of \<^verbatim>\<open>.md\<close>, not the trailing one: for the file \<^verbatim>\<open>a.mdx.md\<close> the slug
  is \<^verbatim>\<open>ax.md\<close>, where stripping the extension gives \<^verbatim>\<open>a.mdx\<close>.
\<close>

theorem parsePost_slug_first_occurrence:
  "map_sum id (map_option slug) (parsePost sample_env ''a.mdx.md'' ''Hello'') = Inr (Some ''ax.md'')
   \<and> endsWith ''a.mdx.md'' ''.md''
   \<and> take (length ''a.mdx.md'' - length ''.md'') ''a.mdx.md'' = ''a.mdx''"
  by (simp add: parsePost_def endsWith_def js_replace_def sample_env_def)

text \<open>
  Where \<^verbatim>\<open>.md\<close> occurs in the name only as its extension, the slug is the name without it.
\<close>

lemma js_replace_strips_extension:
  assumes "endsWith filename ''.md''"
    and "indexOf filename ''.md'' = Some (length filename - length ''.md'')"
  shows "js_replace filename ''.md'' '''' = take (length filename - length ''.md'') filename"
proof -
  from assms(1) have "length ''.md'' \<le> length filename"
    by (simp add: endsWith_def Let_def split: if_splits)
  with assms(2) show ?thesis
    by (simp add: js_replace_def)
qed

section \<open>Properties of the post template substitution\<close>

text \<open>
  Claim C1. \<^verbatim>\<open>buildPost\<close> substitutes with \<^verbatim>\<open>String.prototype.replace\<close> and a string
  pattern, which replaces the first occurrence only. For the template
  \<^verbatim>\<open><title>{{title}}</title><h1>{{title}}</h1>\<close> and the title \<^verbatim>\<open>Test Title\<close> the second
  placeholder is still in the page, whatever the platform, the date and the body are.
\<close>

theorem buildPost_html_first_occurrence_only:
  "buildPost_html env
     \<lparr>slug = s, meta = \<lparr>title = ''Test Title'', date = d, tags = ts, draft = dr\<rparr>,
      content = c, html = h\<rparr>
     ''<title>{{title}}</title><h1>{{title}}</h1>''
   = ''<title>Test Title</title><h1>{{title}}</h1>''"
  by (simp add: buildPost_html_def js_replace_def)

text \<open>
  The replacement is not taken literally either: \<^verbatim>\<open>replace\<close> expands the dollar patterns of a
  replacement string, so a title that holds \<^verbatim>\<open>$$\<close> is written with one dollar sign.
\<close>

lemma buildPost_html_dollar_pattern:
  "buildPost_html env
     \<lparr>slug = s, meta = \<lparr>title = ''Save $$ & more'', date = d, tags = ts, draft = dr\<rparr>,
      content = c, html = h\<rparr>
     ''<h1>{{title}}</h1>''
   = ''<h1>Save $ & more</h1>''"
  by (simp add: buildPost_html_def js_replace_def)

text \<open>
  Claim C10. The three substitutions are applied one after the other to the
  intermediate string. With the title \<^verbatim>\<open>{{date}}\<close> and the template
  \<^verbatim>\<open>{{title}}|{{date}}\<close>, where \<^verbatim>\<open>{{title}}\<close> comes first, the token brought in by the
  title is the one that the date replaces, and the template's own \<^verbatim>\<open>{{date}}\<close> stays.
\<close>

theorem buildPost_html_sequential:
  "indexOf ''{{date}}'' ''{{date}}'' = Some 0
   \<and> indexOf ''{{title}}|{{date}}'' ''{{title}}'' = Some 0
   \<and> indexOf ''{{title}}|{{date}}'' ''{{date}}'' = Some 10
   \<and> js_replace ''{{title}}|{{date}}'' ''{{title}}'' ''{{date}}'' = ''{{date}}|{{date}}''
   \<and> buildPost_html sample_env
        \<lparr>slug = ''s'', meta = \<lparr>title = ''{{date}}'', date = Some (Num 0), tags = None, draft = None\<rparr>,
         content = '''', html = ''<p>body</p>''\<rparr>
        ''{{title}}|{{date}}''
      = formatDate sample_env (Some (Num 0)) @ ''|{{date}}''"
  by (simp add: buildPost_html_def js_replace_def sample_env_def formatDate_def)

section \<open>Properties of \<^verbatim>\<open>filterPostsForIndex\<close>\<close>

lemma mset_insort_cmp: "mset (insort_cmp cmp x xs) = add_mset x (mset xs)"
  by (induction xs) simp_all

lemma mset_js_sort: "mset (js_sort cmp xs) = mset xs"
  unfolding js_sort_def by (induction xs) (simp_all add: mset_insort_cmp)

lemma set_js_sort: "set (js_sort cmp xs) = set xs"
  by (metis mset_js_sort set_mset_mset)

lemma set_js_sort_newestFirst: "set (js_sort newestFirst xs) = set xs"
  by (rule set_js_sort)

lemma mset_filterPostsForIndex:
  "mset (filterPostsForIndex posts) = filter_mset (\<lambda>p. \<not> truthy (draft (meta p))) (mset posts)"
  by (simp add: filterPostsForIndex_def mset_js_sort)

lemma set_filterPostsForIndex:
  "set (filterPostsForIndex posts) = {p \<in> set posts. \<not> truthy (draft (meta p))}"
proof -
  have "set_mset (mset (filterPostsForIndex posts)) = {p \<in> set posts. \<not> truthy (draft (meta p))}"
    unfolding mset_filterPostsForIndex by auto
  then show ?thesis by simp
qed

text \<open>
  On posts with valid dates the comparator is consistent: it orders by the time value,
  and the sort is the stable sort by descending time value.
\<close>

lemma SortCompare_newestFirst:
  assumes "valid_date x" and "valid_date y"
  shows "SortCompare newestFirst x y \<le> 0 \<longleftrightarrow> - time_of x \<le> - time_of y"
  using assms
  by (cases "Date_getTime (date (meta x))"; cases "Date_getTime (date (meta y))")
     (simp_all add: valid_date_def newestFirst_def)

lemma date_ge_valid:
  assumes "valid_date x" and "valid_date y"
  shows "date_ge x y \<longleftrightarrow> time_of y \<le> time_of x"
  using assms
  by (cases "Date_getTime (date (meta x))"; cases "Date_getTime (date (meta y))")
     (simp_all add: valid_date_def date_ge_def)

lemma insort_cmp_newestFirst:
  assumes "valid_date x" and "\<forall>y \<in> set xs. valid_date y"
  shows "insort_cmp newestFirst x xs = insort_key (\<lambda>p. - time_of p) x xs"
  using assms(2)
proof (induction xs)
  case Nil
  then show ?case by simp
next
  case (Cons y ys)
  then have "valid_date y" by simp
  from SortCompare_newestFirst [OF assms(1) this] Cons show ?case
    by (simp del: SortCompare.simps time_of.simps)
qed

lemma js_sort_newestFirst:
  assumes "\<forall>x \<in> set xs. valid_date x"
  shows "js_sort newestFirst xs = sort_key (\<lambda>p. - time_of p) xs"
  using assms
proof (induction xs)
  case Nil
  then show ?case by (simp add: js_sort_def)
next
  case (Cons x xs)
  then have ih: "js_sort newestFirst xs = sort_key (\<lambda>p. - time_of p) xs"
    by simp
  from Cons.prems have "valid_date x" and "\<forall>y \<in> set (sort_key (\<lambda>p. - time_of p) xs). valid_date y"
    by simp_all
  from insort_cmp_newestFirst [OF this] ih show ?case
    by (simp add: js_sort_def sort_key_def)
qed

lemma sorted_newestFirst:
  assumes "\<forall>x \<in> set xs. valid_date x"
  shows "sorted_wrt date_ge (js_sort newestFirst xs)"
proof -
  let ?r = "sort_key (\<lambda>p. - time_of p) xs"
  have "sorted (map (\<lambda>p. - time_of p) ?r)"
    by (rule sorted_sort_key)
  then have "sorted_wrt (\<lambda>a b. time_of b \<le> time_of a) ?r"
    by (simp add: sorted_map del: time_of.simps)
  moreover from assms have "\<forall>x \<in> set ?r. valid_date x"
    by simp
  ultimately have "sorted_wrt date_ge ?r"
    by (auto simp: date_ge_valid elim!: sorted_wrt_mono_rel [rotated])
  then show ?thesis
    by (simp add: js_sort_newestFirst [OF assms])
qed

text \<open>
  A post without a valid date compares false with its neighbours on either side, so
  no arrangement of two or more posts that holds one is descending, whatever order
  the engine returns.
\<close>

lemma invalid_date_never_descending:
  assumes "p \<in> set r" and "\<not> valid_date p" and "2 \<le> length r"
  shows "\<exists>i. Suc i < length r \<and> \<not> date_ge (r ! i) (r ! Suc i)"
proof -
  from assms(1) obtain k where k: "k < length r" "r ! k = p"
    by (auto simp: in_set_conv_nth)
  from assms(2) have nan: "Date_getTime (date (meta p)) = NaN"
    by (simp add: valid_date_def)
  show ?thesis
  proof (cases "Suc k < length r")
    case True
    from nan k have "\<not> date_ge (r ! k) (r ! Suc k)"
      by (simp add: date_ge_def)
    with True show ?thesis by blast
  next
    case False
    with k assms(3) obtain j where j: "k = Suc j"
      by (cases k) auto
    from nan k j have "\<not> date_ge (r ! j) (r ! Suc j)"
      by (cases "Date_getTime (date (meta (r ! j)))") (simp_all add: date_ge_def)
    with k j show ?thesis by blast
  qed
qed

lemma filterPostsForIndex_sample:
  "filterPostsForIndex [post_old, post_draft, post_new] = [post_new, post_old]"
  by (simp add: filterPostsForIndex_def js_sort_def newestFirst_def truthy_def
      post_old_def post_draft_def post_new_def)

lemma filterPostsForIndex_undated: "filterPostsForIndex undated_posts = undated_posts"
  by (simp add: filterPostsForIndex_def js_sort_def newestFirst_def truthy_def
      undated_posts_def dated_def)

text \<open>
  Claim C3, as stated, fails: the posts dated 2000, (no date), 3000 and 1000, none a
  draft, come back in this order. The first pair is not descending, since nothing
  compares with a missing date, and 2000 stands before 3000.
\<close>

theorem filterPostsForIndex_undated_not_descending:
  "filterPostsForIndex undated_posts
     = [dated ''a'' (Some (Num 2000)), dated ''b'' None,
        dated ''c'' (Some (Num 3000)), dated ''d'' (Some (Num 1000))]
   \<and> Suc 0 < length (filterPostsForIndex undated_posts)
   \<and> \<not> date_ge (filterPostsForIndex undated_posts ! 0) (filterPostsForIndex undated_posts ! Suc 0)
   \<and> \<not> date_ge (filterPostsForIndex undated_posts ! 0) (filterPostsForIndex undated_posts ! 2)"
  by (simp add: filterPostsForIndex_undated)
     (simp add: undated_posts_def dated_def date_ge_def)

text \<open>
  Claim C3, amended. The result of \<^verbatim>\<open>filterPostsForIndex\<close> holds exactly the posts of the
  input whose draft flag is not truthy, each as often as the input does; none of its
  posts is a draft; it is no longer than the input. When every post of the input that is
  not a draft has a valid date, each post of the result is at least as recent as the one
  after it.
\<close>

theorem filterPostsForIndex_spec:
  "mset (filterPostsForIndex posts) = filter_mset (\<lambda>p. \<not> truthy (draft (meta p))) (mset posts)
   \<and> (\<forall>p \<in> set (filterPostsForIndex posts). \<not> truthy (draft (meta p)))
   \<and> length (filterPostsForIndex posts) \<le> length posts
   \<and> ((\<forall>p \<in> set posts. \<not> truthy (draft (meta p)) \<longrightarrow> valid_date p) \<longrightarrow>
        (\<forall>i. Suc i < length (filterPostsForIndex posts) \<longrightarrow>
           date_ge (filterPostsForIndex posts ! i) (filterPostsForIndex posts ! Suc i)))"
proof -
  let ?r = "filterPostsForIndex posts"
  have d: "\<forall>p \<in> set ?r. \<not> truthy (draft (meta p))"
    by (simp add: set_filterPostsForIndex)
  have "size (mset ?r) \<le> size (mset posts)"
    unfolding mset_filterPostsForIndex by (rule size_filter_mset_lesseq)
  then have l: "length ?r \<le> length posts"
    by simp
  have s: "(\<forall>p \<in> set posts. \<not> truthy (draft (meta p)) \<longrightarrow> valid_date p) \<longrightarrow>
        (\<forall>i. Suc i < length ?r \<longrightarrow> date_ge (?r ! i) (?r ! Suc i))"
  proof
    assume "\<forall>p \<in> set posts. \<not> truthy (draft (meta p)) \<longrightarrow> valid_date p"
    then have "\<forall>x \<in> set (filter (\<lambda>post. \<not> truthy (draft (meta post))) posts). valid_date x"
      by simp
    then have "sorted_wrt date_ge ?r"
      unfolding filterPostsForIndex_def by (rule sorted_newestFirst)
    then show "\<forall>i. Suc i < length ?r \<longrightarrow> date_ge (?r ! i) (?r ! Suc i)"
      by (simp add: sorted_wrt_iff_nth_less)
  qed
  from mset_filterPostsForIndex d l s show ?thesis by blast
qed

theorem filterPostsForIndex_spec_witness:
  "filterPostsForIndex [post_old, post_draft, post_new] = [post_new, post_old]
   \<and> valid_date post_old \<and> truthy (draft (meta post_draft)) \<and> valid_date post_new
   \<and> post_new \<in> set (filterPostsForIndex [post_old, post_draft, post_new])
   \<and> \<not> truthy (draft (meta post_new))
   \<and> Suc 0 < length (filterPostsForIndex [post_old, post_draft, post_new])
   \<and> date_ge (filterPostsForIndex [post_old, post_draft, post_new] ! 0)
        (filterPostsForIndex [post_old, post_draft, post_new] ! Suc 0)"
proof -
  have v: "valid_date post_old" "truthy (draft (meta post_draft))" "valid_date post_new"
    by (simp_all add: valid_date_def truthy_def post_old_def post_draft_def post_new_def)
  have n: "\<not> truthy (draft (meta post_new))"
    by (simp add: truthy_def post_new_def)
  from filterPostsForIndex_spec [of "[post_old, post_draft, post_new]"] v n
  show ?thesis
    by (simp add: filterPostsForIndex_sample)
qed

text \<open>
  Claim C9. Called on a reference to an array, \<^verbatim>\<open>filterPostsForIndex\<close> returns a
  reference to a new array that holds the filtered and sorted posts; the array it was
  given, and every other array of the store, is as it was.
\<close>

theorem filterPostsForIndex_store_frame:
  assumes "posts < length h"
  shows "\<exists>r h'. filterPostsForIndex_store posts h = Some (r, h')
           \<and> h' ! posts = h ! posts
           \<and> r = length h
           \<and> h' ! r = filterPostsForIndex (h ! posts)
           \<and> length h' = Suc (length h)
           \<and> (\<forall>a < length h. h' ! a = h ! a)"
  using assms
  by (simp add: filterPostsForIndex_store_def Array_filter_def Array_sort_def
      filterPostsForIndex_def nth_append)

theorem filterPostsForIndex_store_frame_witness:
  "(0::nat) < length [[post_old, post_draft, post_new]]
   \<and> (\<exists>h'. filterPostsForIndex_store 0 [[post_old, post_draft, post_new]] = Some (1, h')
         \<and> h' ! 0 = [post_old, post_draft, post_new]
         \<and> h' ! 1 = [post_new, post_old])"
  using filterPostsForIndex_store_frame [of 0 "[[post_old, post_draft, post_new]]"]
  by (auto simp: filterPostsForIndex_sample)

section \<open>Properties of \<^verbatim>\<open>build\<close>\<close>

lemma writeFile_Inr:
  "writeFile path text fs = Inr fs' \<Longrightarrow> fs' = fs\<lparr>writes := writes fs @ [(path, text)]\<rparr>"
  by (auto simp: writeFile_def split: if_splits)

lemma buildPosts_Inr:
  "buildPosts env posts template fs = Inr fs' \<Longrightarrow>
   fs' = fs\<lparr>writes := writes fs @
           map (\<lambda>post. (path_join OUTPUT_DIR (slug post @ ''.html''),
                         buildPost_html env post template)) posts\<rparr>"
proof (induction posts arbitrary: fs)
  case Nil
  then show ?case by simp
next
  case (Cons post rest)
  from Cons.prems obtain fs1 where
    w: "buildPost env post template fs = Inr fs1" and r: "buildPosts env rest template fs1 = Inr fs'"
    by (auto split: sum.splits)
  from w have "fs1 = fs\<lparr>writes := writes fs @
      [(path_join OUTPUT_DIR (slug post @ ''.html''), buildPost_html env post template)]\<rparr>"
    unfolding buildPost_def by (rule writeFile_Inr)
  with Cons.IH [OF r] show ?case by simp
qed

lemma getPosts_loop_Inr:
  "getPosts_loop env fs names acc = Inr posts \<Longrightarrow>
     (\<forall>file \<in> set names. \<exists>text r.
         readFile fs (path_join POSTS_DIR file) = Inr text \<and> parsePost env file text = Inr r
         \<and> (\<forall>post. r = Some post \<longrightarrow> post \<in> set posts))
   \<and> set acc \<subseteq> set posts
   \<and> (\<forall>post \<in> set posts. post \<in> set acc \<or>
         (\<exists>file \<in> set names. \<exists>text.
             readFile fs (path_join POSTS_DIR file) = Inr text
           \<and> parsePost env file text = Inr (Some post)))"
proof (induction names arbitrary: acc)
  case Nil
  then show ?case by simp
next
  case (Cons name rest)
  from Cons.prems obtain body r where
    rd: "readFile fs (path_join POSTS_DIR name) = Inr body" and
    pp: "parsePost env name body = Inr r"
    by (auto split: sum.splits)
  show ?case
  proof (cases r)
    case None
    with Cons.prems rd pp have "getPosts_loop env fs rest acc = Inr posts" by simp
    from Cons.IH [OF this] rd pp None show ?thesis by auto
  next
    case (Some post)
    with Cons.prems rd pp have "getPosts_loop env fs rest (acc @ [post]) = Inr posts" by simp
    from Cons.IH [OF this] rd pp Some show ?thesis by auto
  qed
qed

lemma copyStyles_writes:
  "\<exists>styles. copyStyles fs = fs\<lparr>writes := writes fs @ styles\<rparr>
      \<and> (\<forall>w \<in> set styles. fst w = path_join OUTPUT_DIR ''styles.css'')"
proof (cases "readFile fs (path_join TEMPLATES_DIR ''styles.css'')")
  case (Inl e)
  then have "copyStyles fs = fs\<lparr>writes := writes fs @ []\<rparr>"
    by (simp add: copyStyles_def)
  then show ?thesis by (metis empty_iff list.set(1))
next
  case (Inr css)
  show ?thesis
  proof (cases "writable fs (path_join OUTPUT_DIR ''styles.css'')")
    case True
    with Inr have "copyStyles fs = fs\<lparr>writes := writes fs @ [(path_join OUTPUT_DIR ''styles.css'', css)]\<rparr>"
      by (simp add: copyStyles_def writeFile_def)
    then show ?thesis by (intro exI [of _ "[(path_join OUTPUT_DIR ''styles.css'', css)]"]) simp
  next
    case False
    with Inr have "copyStyles fs = fs\<lparr>writes := writes fs @ []\<rparr>"
      by (simp add: copyStyles_def writeFile_def)
    then show ?thesis by (metis empty_iff list.set(1))
  qed
qed

lemma buildPosts_succeeds:
  "\<forall>path. writable fs path \<Longrightarrow> \<exists>fs'. buildPosts env posts template fs = Inr fs'"
  by (induction posts arbitrary: fs) (simp_all add: buildPost_def writeFile_def)

text \<open>A build succeeds when its reads and writes do.\<close>

lemma build_succeeds:
  assumes "mkdirOk fs"
    and "readTemplate fs ''index'' = Inr indexTemplate"
    and "readTemplate fs ''post'' = Inr postTemplate"
    and "getPosts env fs = Inr allPosts"
    and "\<forall>path. writable fs path"
  shows "\<exists>fs'. build env fs = Inr fs'"
proof -
  from buildPosts_succeeds [OF assms(5)] obtain fs2 where
    bp: "buildPosts env allPosts postTemplate fs = Inr fs2"
    by blast
  from buildPosts_Inr [OF bp] assms(5) have "\<forall>path. writable fs2 path"
    by simp
  then obtain fs3 where
    "buildIndex env (filterPostsForIndex allPosts) indexTemplate fs2 = Inr fs3"
    by (simp add: buildIndex_def writeFile_def)
  with assms bp show ?thesis
    by (simp add: build_def mkdir_def)
qed

text \<open>
  Claim C2. A build that succeeds has read the two templates and parsed every file of
  the posts directory whose name ends in \<^verbatim>\<open>.md\<close>; \<^verbatim>\<open>allPosts\<close> holds those posts and
  no others, drafts among them. The build writes, in this order, one page
  \<^verbatim>\<open>docs/<slug>.html\<close> for every post of \<^verbatim>\<open>allPosts\<close>, whatever its draft flag, then
  \<^verbatim>\<open>docs/index.html\<close> rendered from \<^verbatim>\<open>filterPostsForIndex allPosts\<close>, the posts whose
  draft flag is not truthy, and then at most the stylesheet.
\<close>

theorem build_all_posts_index_without_drafts:
  assumes "build env fs = Inr fs'"
  shows "\<exists>names indexTemplate postTemplate allPosts styles.
      readdir fs POSTS_DIR = Inr names
    \<and> readTemplate fs ''index'' = Inr indexTemplate
    \<and> readTemplate fs ''post'' = Inr postTemplate
    \<and> getPosts env fs = Inr allPosts
    \<and> (\<forall>file \<in> set names. endsWith file ''.md'' \<longrightarrow>
          (\<exists>text post. readFile fs (path_join POSTS_DIR file) = Inr text
             \<and> parsePost env file text = Inr (Some post) \<and> post \<in> set allPosts))
    \<and> (\<forall>post \<in> set allPosts. \<exists>file \<in> set names. \<exists>text.
          readFile fs (path_join POSTS_DIR file) = Inr text
        \<and> parsePost env file text = Inr (Some post))
    \<and> writes fs' =
          writes fs
          @ map (\<lambda>post. (path_join OUTPUT_DIR (slug post @ ''.html''),
                          buildPost_html env post postTemplate)) allPosts
          @ [(path_join OUTPUT_DIR ''index.html'',
              buildIndex_html env (filterPostsForIndex allPosts) indexTemplate)]
          @ styles
    \<and> set (filterPostsForIndex allPosts) = {post \<in> set allPosts. \<not> truthy (draft (meta post))}
    \<and> (\<forall>w \<in> set styles. fst w = path_join OUTPUT_DIR ''styles.css'')"
proof -
  from assms obtain indexTemplate postTemplate allPosts fs2 fs3 where
    ti: "readTemplate fs ''index'' = Inr indexTemplate" and
    tp: "readTemplate fs ''post'' = Inr postTemplate" and
    gp: "getPosts env fs = Inr allPosts" and
    bp: "buildPosts env allPosts postTemplate fs = Inr fs2" and
    bi: "buildIndex env (filterPostsForIndex allPosts) indexTemplate fs2 = Inr fs3" and
    cs: "fs' = copyStyles fs3"
    by (auto simp: build_def mkdir_def Let_def split: sum.splits if_splits)
  from gp obtain names posts where
    rd: "readdir fs POSTS_DIR = Inr names" and
    lp: "getPosts_loop env fs names [] = Inr posts" and
    so: "allPosts = js_sort newestFirst posts"
    by (auto simp: getPosts_def split: sum.splits)
  have sa: "set allPosts = set posts"
    by (simp add: so set_js_sort_newestFirst)
  note loop = getPosts_loop_Inr [OF lp]
  have every: "\<forall>file \<in> set names. endsWith file ''.md'' \<longrightarrow>
          (\<exists>text post. readFile fs (path_join POSTS_DIR file) = Inr text
             \<and> parsePost env file text = Inr (Some post) \<and> post \<in> set allPosts)"
  proof (intro ballI impI)
    fix name assume n: "name \<in> set names" and md: "endsWith name ''.md''"
    from loop n obtain body r where
      b: "readFile fs (path_join POSTS_DIR name) = Inr body" and
      p: "parsePost env name body = Inr r" and
      i: "\<forall>post. r = Some post \<longrightarrow> post \<in> set posts"
      by blast
    from p md have "r \<noteq> None"
      by (auto simp: parsePost_def Let_def split: sum.splits prod.splits)
    then obtain post where "r = Some post" by auto
    with b p i sa show "\<exists>text post. readFile fs (path_join POSTS_DIR name) = Inr text
             \<and> parsePost env name text = Inr (Some post) \<and> post \<in> set allPosts"
      by auto
  qed
  from loop sa have only: "\<forall>post \<in> set allPosts. \<exists>file \<in> set names. \<exists>text.
          readFile fs (path_join POSTS_DIR file) = Inr text
        \<and> parsePost env file text = Inr (Some post)"
    by auto
  have w2: "fs2 = fs\<lparr>writes := writes fs @
           map (\<lambda>post. (path_join OUTPUT_DIR (slug post @ ''.html''),
                         buildPost_html env post postTemplate)) allPosts\<rparr>"
    by (rule buildPosts_Inr [OF bp])
  from bi have w3: "fs3 = fs2\<lparr>writes := writes fs2 @
      [(path_join OUTPUT_DIR ''index.html'',
        buildIndex_html env (filterPostsForIndex allPosts) indexTemplate)]\<rparr>"
    unfolding buildIndex_def by (rule writeFile_Inr)
  from copyStyles_writes [of fs3] cs obtain styles where
    w4: "fs' = fs3\<lparr>writes := writes fs3 @ styles\<rparr>" and
    st: "\<forall>w \<in> set styles. fst w = path_join OUTPUT_DIR ''styles.css''"
    by auto
  have wr: "writes fs' =
          writes fs
          @ map (\<lambda>post. (path_join OUTPUT_DIR (slug post @ ''.html''),
                          buildPost_html env post postTemplate)) allPosts
          @ [(path_join OUTPUT_DIR ''index.html'',
              buildIndex_html env (filterPostsForIndex allPosts) indexTemplate)]
          @ styles"
    by (simp add: w2 w3 w4)
  from rd ti tp gp every only wr set_filterPostsForIndex [of allPosts] st
  show ?thesis by blast
qed

lemma mkdir_sample: "mkdir OUTPUT_DIR sample_fs = Inr sample_fs"
  by (simp add: mkdir_def sample_fs_def)

lemma readTemplate_sample:
  "readTemplate sample_fs ''index'' = Inr ''<ul>{{posts}}</ul>''"
  "readTemplate sample_fs ''post'' = Inr ''<h1>{{title}}</h1>{{content}}''"
  by (simp_all add: readTemplate_def readFile_def path_join_def TEMPLATES_DIR_def sample_fs_def)

lemma getPosts_sample: "getPosts sample_env sample_fs = Inr [post_secret, post_hello]"
  by (simp add: getPosts_def readdir_def readFile_def path_join_def POSTS_DIR_def sample_fs_def
      parsePost_def endsWith_def js_replace_def sample_env_def js_sort_def newestFirst_def
      post_secret_def post_hello_def)

lemma buildPost_html_sample:
  "buildPost_html sample_env post_secret ''<h1>{{title}}</h1>{{content}}''
     = ''<h1>DRAFT L Combinator</h1>DRAFT L Combinator''"
  "buildPost_html sample_env post_hello ''<h1>{{title}}</h1>{{content}}''
     = ''<h1>Hello World</h1>Hello World''"
  by (simp_all add: buildPost_html_def js_replace_def post_secret_def post_hello_def)

lemma filterPostsForIndex_sample2: "filterPostsForIndex [post_secret, post_hello] = [post_hello]"
  by (simp add: filterPostsForIndex_def js_sort_def truthy_def post_secret_def post_hello_def)

lemma buildIndex_html_sample:
  "buildIndex_html sample_env [post_hello] ''<ul>{{posts}}</ul>''
     = ''<ul>'' @ postListItem sample_env post_hello @ ''</ul>''"
  by (simp add: buildIndex_html_def js_replace_def postListItem_def post_hello_def
      sample_env_def formatDate_def)

lemma sample_fs_fields:
  "writable sample_fs path" "writes sample_fs = []"
  "files sample_fs ''templates/styles.css'' = None"
  by (simp_all add: sample_fs_def)

lemma slug_sample: "slug post_secret = ''secret''" "slug post_hello = ''hello''"
  by (simp_all add: post_secret_def post_hello_def)

lemma buildPosts_sample:
  "buildPosts sample_env [post_secret, post_hello] ''<h1>{{title}}</h1>{{content}}'' sample_fs
     = Inr (sample_fs\<lparr>writes := take 2 sample_writes\<rparr>)"
  by (simp add: buildPost_def writeFile_def buildPost_html_sample slug_sample sample_fs_fields
      path_join_def OUTPUT_DIR_def sample_writes_def)

lemma buildIndex_sample:
  "buildIndex sample_env [post_hello] ''<ul>{{posts}}</ul>'' (sample_fs\<lparr>writes := take 2 sample_writes\<rparr>)
     = Inr (sample_fs\<lparr>writes := sample_writes\<rparr>)"
  by (simp add: buildIndex_def writeFile_def buildIndex_html_sample sample_fs_fields
      path_join_def OUTPUT_DIR_def sample_writes_def)

lemma copyStyles_sample:
  "copyStyles (sample_fs\<lparr>writes := sample_writes\<rparr>) = sample_fs\<lparr>writes := sample_writes\<rparr>"
  by (simp add: copyStyles_def readFile_def path_join_def TEMPLATES_DIR_def sample_fs_fields)

lemma build_sample: "build sample_env sample_fs = Inr (sample_fs\<lparr>writes := sample_writes\<rparr>)"
  by (simp add: build_def mkdir_sample readTemplate_sample getPosts_sample buildPosts_sample
      filterPostsForIndex_sample2 buildIndex_sample copyStyles_sample del: buildPosts.simps)

theorem build_all_posts_index_without_drafts_witness:
  "build sample_env sample_fs = Inr (sample_fs\<lparr>writes := sample_writes\<rparr>)
   \<and> getPosts sample_env sample_fs = Inr [post_secret, post_hello]
   \<and> truthy (draft (meta post_secret))
   \<and> filterPostsForIndex [post_secret, post_hello] = [post_hello]
   \<and> writes (sample_fs\<lparr>writes := sample_writes\<rparr>) =
        [(''docs/secret.html'', buildPost_html sample_env post_secret ''<h1>{{title}}</h1>{{content}}''),
         (''docs/hello.html'', buildPost_html sample_env post_hello ''<h1>{{title}}</h1>{{content}}''),
         (''docs/index.html'', buildIndex_html sample_env [post_hello] ''<ul>{{posts}}</ul>'')]"
  using build_all_posts_index_without_drafts [OF build_sample]
  by (simp add: build_sample getPosts_sample readTemplate_sample filterPostsForIndex_sample2
      slug_sample path_join_def OUTPUT_DIR_def sample_fs_fields truthy_def post_secret_def
      [THEN arg_cong, of meta] sample_writes_def buildPost_html_sample buildIndex_html_sample)

section \<open>Properties of dev mode\<close>

lemma foldl_preserves:
  assumes "\<And>s x. P s \<Longrightarrow> P (f s x)" and "P s"
  shows "P (foldl f s xs)"
  using assms(2) by (induction xs arbitrary: s) (simp_all add: assms(1))

lemma startDevMode_started: "startDevMode True = Some dev_started"
  by (simp add: startDevMode_def dev_started_def)

subsection \<open>The timer table\<close>

lemma timer_callback_timers:
  "timers (timer_callback p f s) = timers s"
  "rebuildTimeout (timer_callback p f s) = rebuildTimeout s"
  "listeners (timer_callback p f s) = listeners s"
  by (simp_all add: timer_callback_def recompileTypeScript_begin_def regenerateSite_begin_def
      log_def Let_def)

lemma timer_inv_cong:
  "timers s' = timers s \<Longrightarrow> rebuildTimeout s' = rebuildTimeout s \<Longrightarrow> timer_inv s' = timer_inv s"
  by (simp add: timer_inv_def)

lemma timer_inv_timer_callback: "timer_inv (timer_callback p f s) = timer_inv s"
  by (rule timer_inv_cong) (simp_all add: timer_callback_timers)

lemma scheduleRebuild_timers:
  assumes "timer_inv s"
  shows "timers (scheduleRebuild p f s) =
           [\<lparr>handle = nextHandle s, due = now s + DEBOUNCE_MS, filePath = p,
             needsTypeScriptRecompile = f\<rparr>]"
    and "rebuildTimeout (scheduleRebuild p f s) = Some (nextHandle s)"
  using assms
  by (auto simp: timer_inv_def scheduleRebuild_def setTimeout_def clearTimeout_def Let_def
      split: option.splits)

lemma timer_inv_scheduleRebuild: "timer_inv s \<Longrightarrow> timer_inv (scheduleRebuild p f s)"
  by (simp add: timer_inv_def scheduleRebuild_timers)

lemma timer_inv_watcher_on: "timer_inv (watcher_on w k l s) = timer_inv s"
  by (rule timer_inv_cong) (simp_all add: watcher_on_def)

lemma timer_inv_call_listener: "timer_inv s \<Longrightarrow> timer_inv (call_listener l p s)"
  by (cases l) (simp_all add: timer_inv_watcher_on timer_inv_scheduleRebuild)

lemma timer_inv_watcher_emit: "timer_inv s \<Longrightarrow> timer_inv (watcher_emit w k p s)"
  unfolding watcher_emit_def
  by (rule foldl_preserves) (simp_all add: timer_inv_call_listener)

lemma timer_inv_elapse: "timer_inv s \<Longrightarrow> timer_inv (elapse d s)"
  unfolding elapse_def Let_def
proof (rule foldl_preserves)
  fix st :: dev_state and tm :: timer
  assume "timer_inv st"
  then show "timer_inv (timer_callback (filePath tm) (needsTypeScriptRecompile tm) st)"
    by (simp add: timer_inv_timer_callback)
next
  assume "timer_inv s"
  then show "timer_inv (s\<lparr>now := now s + d,
      timers := filter (\<lambda>tm. \<not> due tm \<le> now s + d) (timers s)\<rparr>)"
    by (auto simp: timer_inv_def split: if_splits)
qed

lemma timer_inv_step: "timer_inv s \<Longrightarrow> timer_inv (step e s)"
proof (cases e)
  case (Watch w k p)
  assume "timer_inv s"
  with Watch show ?thesis by (simp add: timer_inv_watcher_emit)
next
  case (Elapse d)
  assume "timer_inv s"
  with Elapse show ?thesis by (simp add: timer_inv_elapse)
next
  case (TscExit ok)
  assume "timer_inv s"
  with TscExit show ?thesis
    by (simp add: timer_inv_def timer_callback_resume_def regenerateSite_begin_def log_def)
next
  case (BuildSettled ok)
  assume "timer_inv s"
  with BuildSettled show ?thesis
    by (simp add: timer_inv_def regenerateSite_settle_def log_def)
qed

lemma timer_inv_run: "timer_inv s \<Longrightarrow> timer_inv (run es s)"
  by (induction es arbitrary: s) (simp_all add: timer_inv_step)

lemma timer_inv_dev_started: "timer_inv dev_started"
  by (simp add: timer_inv_def dev_started_def startDevMode_watch_def watcher_on_def
      startServer_def module_init_def)

lemma timer_inv_reachable: "timer_inv (run es dev_started)"
  by (rule timer_inv_run) (rule timer_inv_dev_started)

subsection \<open>The in-flight guard\<close>

lemma guard_inv_cong:
  "building s' = building s \<Longrightarrow> isRebuilding s' = isRebuilding s \<Longrightarrow> guard_inv s' = guard_inv s"
  by (simp add: guard_inv_def)

lemma guard_inv_regenerateSite_begin: "guard_inv s \<Longrightarrow> guard_inv (regenerateSite_begin s)"
  by (simp add: guard_inv_def regenerateSite_begin_def log_def)

lemma guard_inv_log: "guard_inv (log l s) = guard_inv s"
  by (simp add: guard_inv_def log_def)

lemma guard_inv_timer_callback: "guard_inv s \<Longrightarrow> guard_inv (timer_callback p f s)"
  by (simp add: timer_callback_def Let_def guard_inv_regenerateSite_begin guard_inv_log)
     (simp add: guard_inv_def recompileTypeScript_begin_def log_def)

lemma guard_inv_scheduleRebuild: "guard_inv (scheduleRebuild p f s) = guard_inv s"
  by (rule guard_inv_cong)
     (simp_all add: scheduleRebuild_def setTimeout_def clearTimeout_def split: option.splits)

lemma guard_inv_watcher_on: "guard_inv (watcher_on w k l s) = guard_inv s"
  by (rule guard_inv_cong) (simp_all add: watcher_on_def)

lemma guard_inv_call_listener: "guard_inv s \<Longrightarrow> guard_inv (call_listener l p s)"
  by (cases l) (simp_all add: guard_inv_watcher_on guard_inv_scheduleRebuild)

lemma guard_inv_watcher_emit: "guard_inv s \<Longrightarrow> guard_inv (watcher_emit w k p s)"
  unfolding watcher_emit_def
  by (rule foldl_preserves) (simp_all add: guard_inv_call_listener)

lemma guard_inv_elapse: "guard_inv s \<Longrightarrow> guard_inv (elapse d s)"
  unfolding elapse_def Let_def
proof (rule foldl_preserves)
  fix st :: dev_state and tm :: timer
  assume "guard_inv st"
  then show "guard_inv (timer_callback (filePath tm) (needsTypeScriptRecompile tm) st)"
    by (rule guard_inv_timer_callback)
next
  assume "guard_inv s"
  then show "guard_inv (s\<lparr>now := now s + d,
      timers := filter (\<lambda>tm. \<not> due tm \<le> now s + d) (timers s)\<rparr>)"
    by (simp add: guard_inv_def)
qed

lemma guard_inv_step: "guard_inv s \<Longrightarrow> guard_inv (step e s)"
proof (cases e)
  case (Watch w k p)
  assume "guard_inv s"
  with Watch show ?thesis by (simp add: guard_inv_watcher_emit)
next
  case (Elapse d)
  assume "guard_inv s"
  with Elapse show ?thesis by (simp add: guard_inv_elapse)
next
  case (TscExit ok)
  assume "guard_inv s"
  then have "guard_inv (s\<lparr>compiling := compiling s - 1\<rparr>)"
    by (simp add: guard_inv_def)
  then have "guard_inv (timer_callback_resume ok (s\<lparr>compiling := compiling s - 1\<rparr>))"
    by (simp add: timer_callback_resume_def guard_inv_regenerateSite_begin guard_inv_log)
  with \<open>guard_inv s\<close> TscExit show ?thesis by simp
next
  case (BuildSettled ok)
  assume "guard_inv s"
  with BuildSettled show ?thesis
    by (simp add: guard_inv_def regenerateSite_settle_def log_def split: if_splits)
qed

lemma guard_inv_run: "guard_inv s \<Longrightarrow> guard_inv (run es s)"
  by (induction es arbitrary: s) (simp_all add: guard_inv_step)

lemma guard_inv_dev_started: "guard_inv dev_started"
  by (simp add: guard_inv_def dev_started_def startDevMode_watch_def watcher_on_def
      startServer_def module_init_def)

lemma guard_inv_reachable: "guard_inv (run es dev_started)"
  by (rule guard_inv_run) (rule guard_inv_dev_started)

subsection \<open>Debouncing\<close>

lemma scheduleRebuild_eq:
  assumes "timer_inv s"
  shows "scheduleRebuild p f s =
           s\<lparr>nextHandle := Suc (nextHandle s),
             timers := [\<lparr>handle = nextHandle s, due = now s + DEBOUNCE_MS, filePath = p,
                         needsTypeScriptRecompile = f\<rparr>],
             rebuildTimeout := Some (nextHandle s)\<rparr>"
  using assms
  by (auto simp: timer_inv_def scheduleRebuild_def setTimeout_def clearTimeout_def Let_def
      split: option.splits)

lemma elapse_none_due:
  assumes "\<forall>t \<in> set (timers s). now s + d < due t"
  shows "elapse d s = s\<lparr>now := now s + d\<rparr>"
proof -
  from assms have "filter (\<lambda>tm. due tm \<le> now s + d) (timers s) = []"
    by (auto simp: filter_empty_conv)
  moreover from assms have "filter (\<lambda>tm. \<not> due tm \<le> now s + d) (timers s) = timers s"
    by (auto simp: filter_id_conv)
  ultimately show ?thesis
    by (simp add: elapse_def Let_def)
qed

lemma elapse_one_due:
  assumes "timers s = [t]" and "due t \<le> now s + d"
  shows "elapse d s =
           timer_callback (filePath t) (needsTypeScriptRecompile t) (s\<lparr>now := now s + d, timers := []\<rparr>)"
  using assms by (simp add: elapse_def Let_def)

lemma timer_callback_frame:
  "timer_callback p f (s\<lparr>now := a, nextHandle := b, timers := c, rebuildTimeout := e\<rparr>)
     = (timer_callback p f s)\<lparr>now := a, nextHandle := b, timers := c, rebuildTimeout := e\<rparr>"
  by (simp add: timer_callback_def recompileTypeScript_begin_def regenerateSite_begin_def
      log_def Let_def)

lemma cycles_append: "cycles (xs @ ys) = cycles xs @ cycles ys"
  by (induction xs rule: cycles.induct) simp_all

lemma cycles_timer_callback: "cycles (console (timer_callback p f s)) = cycles (console s) @ [p]"
  by (simp add: timer_callback_def recompileTypeScript_begin_def regenerateSite_begin_def
      log_def Let_def cycles_append)

lemma debounce_two_requests:
  assumes inv: "timer_inv s" and d: "d < DEBOUNCE_MS"
  shows "elapse DEBOUNCE_MS (scheduleRebuild p2 f2 (elapse d (scheduleRebuild p1 f1 s)))
          = (timer_callback p2 f2 s)\<lparr>now := now s + d + DEBOUNCE_MS,
               nextHandle := Suc (Suc (nextHandle s)), timers := [],
               rebuildTimeout := Some (Suc (nextHandle s))\<rparr>"
proof -
  let ?t1 = "\<lparr>handle = nextHandle s, due = now s + DEBOUNCE_MS, filePath = p1,
              needsTypeScriptRecompile = f1\<rparr>"
  let ?s1 = "s\<lparr>nextHandle := Suc (nextHandle s), timers := [?t1],
               rebuildTimeout := Some (nextHandle s)\<rparr>"
  have s1: "scheduleRebuild p1 f1 s = ?s1"
    by (rule scheduleRebuild_eq [OF inv])
  let ?s2 = "?s1\<lparr>now := now s + d\<rparr>"
  from d have s2: "elapse d ?s1 = ?s2"
    by (subst elapse_none_due) simp_all
  have inv2: "timer_inv ?s2"
    by (simp add: timer_inv_def)
  let ?t2 = "\<lparr>handle = Suc (nextHandle s), due = now s + d + DEBOUNCE_MS, filePath = p2,
              needsTypeScriptRecompile = f2\<rparr>"
  let ?s3 = "?s2\<lparr>nextHandle := Suc (Suc (nextHandle s)), timers := [?t2],
               rebuildTimeout := Some (Suc (nextHandle s))\<rparr>"
  have s3: "scheduleRebuild p2 f2 ?s2 = ?s3"
    by (simp add: scheduleRebuild_eq [OF inv2])
  have s4: "elapse DEBOUNCE_MS ?s3
      = timer_callback p2 f2 (?s3\<lparr>now := now s + d + DEBOUNCE_MS, timers := []\<rparr>)"
    by (subst elapse_one_due [of _ ?t2]) simp_all
  have "?s3\<lparr>now := now s + d + DEBOUNCE_MS, timers := []\<rparr>
      = s\<lparr>now := now s + d + DEBOUNCE_MS, nextHandle := Suc (Suc (nextHandle s)), timers := [],
          rebuildTimeout := Some (Suc (nextHandle s))\<rparr>"
    by simp
  then show ?thesis
    by (simp only: s1 s2 s3 s4 timer_callback_frame)
qed

lemma run_sample_fields:
  "isRebuilding (run sample_events dev_started)"
  "building (run sample_events dev_started) = 1"
  "console (run sample_events dev_started) = [ChangeDetected ''posts/hello.md'', RegeneratingSite]"
  "timers (run sample_events dev_started) = []"
  "now (run sample_events dev_started) = 300"
  by (simp_all add: sample_events_def dev_started_def startDevMode_watch_def watcher_on_def
      startServer_def module_init_def watcher_emit_def scheduleRebuild_def setTimeout_def
      clearTimeout_def elapse_def timer_callback_def regenerateSite_begin_def log_def
      endsWith_def DEBOUNCE_MS_def Let_def)

lemma run_sample2_fields:
  "isRebuilding (run sample_events2 dev_started)"
  "building (run sample_events2 dev_started) = 1"
  "console (run sample_events2 dev_started) = [ChangeDetected ''posts/hello.md'', RegeneratingSite]"
  "timers (run sample_events2 dev_started)
     = [\<lparr>handle = 1, due = 600, filePath = ''posts/second.md'', needsTypeScriptRecompile = False\<rparr>]"
  "now (run sample_events2 dev_started) = 300"
  by (simp_all add: sample_events2_def dev_started_def startDevMode_watch_def watcher_on_def
      startServer_def module_init_def watcher_emit_def scheduleRebuild_def setTimeout_def
      clearTimeout_def elapse_def timer_callback_def regenerateSite_begin_def log_def
      endsWith_def DEBOUNCE_MS_def Let_def)

lemma builds_started_append:
  "builds_started (xs @ ys) = builds_started xs + builds_started ys"
  by (induction xs rule: builds_started.induct) simp_all

text \<open>
  Claim C6, as stated, fails: while a build is in flight, two requests that are 100 ms
  apart run one timer callback, for the second file, and that callback is skipped. No
  rebuild executes: no build and no compiler run is started.
\<close>

theorem two_requests_in_flight_start_no_build:
  "(100::nat) < DEBOUNCE_MS
   \<and> isRebuilding (run sample_events dev_started)
   \<and> console (elapse DEBOUNCE_MS
        (scheduleRebuild ''posts/second.md'' False
          (elapse 100
            (scheduleRebuild ''posts/first.md'' False (run sample_events dev_started)))))
       = console (run sample_events dev_started)
         @ [ChangeDetected ''posts/second.md'', BuildInProgressSkipping]
   \<and> builds_started (console (elapse DEBOUNCE_MS
        (scheduleRebuild ''posts/second.md'' False
          (elapse 100
            (scheduleRebuild ''posts/first.md'' False (run sample_events dev_started))))))
       = builds_started (console (run sample_events dev_started))
   \<and> building (elapse DEBOUNCE_MS
        (scheduleRebuild ''posts/second.md'' False
          (elapse 100
            (scheduleRebuild ''posts/first.md'' False (run sample_events dev_started)))))
       = building (run sample_events dev_started)
   \<and> compiling (elapse DEBOUNCE_MS
        (scheduleRebuild ''posts/second.md'' False
          (elapse 100
            (scheduleRebuild ''posts/first.md'' False (run sample_events dev_started)))))
       = compiling (run sample_events dev_started)"
proof -
  have d: "(100::nat) < DEBOUNCE_MS"
    by (simp add: DEBOUNCE_MS_def)
  note two = debounce_two_requests
    [OF timer_inv_reachable [of sample_events] d,
       of "''posts/second.md''" False "''posts/first.md''" False]
  show ?thesis
    unfolding two
    by (simp add: d run_sample_fields timer_callback_def regenerateSite_begin_def log_def
        Let_def builds_started_append)
qed

text \<open>
  Claim C6, amended. In every state that the dev loop reaches, \<^verbatim>\<open>scheduleRebuild\<close>
  leaves exactly one armed timer, the new one: a timer that was pending is cancelled. If
  a second request follows the first by less than the debounce delay, then once the
  delay has passed after the second request exactly one timer callback has run, for the
  file and the recompile flag of the second request, and no timer is left. With the
  flag set the callback has started the compiler, and nothing else; the site is
  regenerated when the compiler exits with success, and not when it fails. With the
  flag not set, and likewise after a successful compilation, \<^verbatim>\<open>regenerateSite\<close> starts
  one build if none is in flight, and if one is, the cycle is skipped.
\<close>

theorem scheduleRebuild_coalesces:
  assumes "d < DEBOUNCE_MS"
  shows "let s = run es dev_started;
             s4 = elapse DEBOUNCE_MS (scheduleRebuild p2 f2 (elapse d (scheduleRebuild p1 f1 s)));
             s' = s\<lparr>now := now s + d + DEBOUNCE_MS, nextHandle := Suc (Suc (nextHandle s)),
                    timers := [], rebuildTimeout := Some (Suc (nextHandle s))\<rparr>
         in timers (scheduleRebuild p1 f1 s)
              = [\<lparr>handle = nextHandle s, due = now s + DEBOUNCE_MS,
                   filePath = p1, needsTypeScriptRecompile = f1\<rparr>]
          \<and> cycles (console s4) = cycles (console s) @ [p2]
          \<and> (f2 \<longrightarrow>
                s4 = s'\<lparr>compiling := Suc (compiling s),
                        console := console s @ [ChangeDetected p2, RecompilingTypeScript]\<rparr>
              \<and> step (TscExit False) s4
                  = s'\<lparr>console := console s @ [ChangeDetected p2, RecompilingTypeScript,
                                                 CompilationFailed, RebuildFailed]\<rparr>
              \<and> (\<not> isRebuilding s \<longrightarrow>
                    step (TscExit True) s4
                      = s'\<lparr>building := 1,
                            console := console s @ [ChangeDetected p2, RecompilingTypeScript,
                                                     CompilationComplete, RegeneratingSite],
                            isRebuilding := True\<rparr>)
              \<and> (isRebuilding s \<longrightarrow>
                    step (TscExit True) s4
                      = s'\<lparr>console := console s @ [ChangeDetected p2, RecompilingTypeScript,
                                                     CompilationComplete, BuildInProgressSkipping]\<rparr>))
          \<and> (\<not> f2 \<and> \<not> isRebuilding s \<longrightarrow>
                s4 = s'\<lparr>building := 1,
                        console := console s @ [ChangeDetected p2, RegeneratingSite],
                        isRebuilding := True\<rparr>)
          \<and> (\<not> f2 \<and> isRebuilding s \<longrightarrow>
                s4 = s'\<lparr>console := console s @ [ChangeDetected p2, BuildInProgressSkipping]\<rparr>)"
proof -
  let ?s = "run es dev_started"
  let ?s4 = "elapse DEBOUNCE_MS (scheduleRebuild p2 f2 (elapse d (scheduleRebuild p1 f1 ?s)))"
  let ?s' = "?s\<lparr>now := now ?s + d + DEBOUNCE_MS, nextHandle := Suc (Suc (nextHandle ?s)),
                 timers := [], rebuildTimeout := Some (Suc (nextHandle ?s))\<rparr>"
  have inv: "timer_inv ?s"
    by (rule timer_inv_reachable)
  have g: "building ?s = (if isRebuilding ?s then 1 else 0)"
    using guard_inv_reachable [of es] by (simp add: guard_inv_def)
  note two = debounce_two_requests [OF inv assms, of p2 f2 p1 f1]
  have t: "timers (scheduleRebuild p1 f1 ?s)
              = [\<lparr>handle = nextHandle ?s, due = now ?s + DEBOUNCE_MS,
                   filePath = p1, needsTypeScriptRecompile = f1\<rparr>]"
    by (rule scheduleRebuild_timers(1) [OF inv])
  have c: "cycles (console ?s4) = cycles (console ?s) @ [p2]"
    unfolding two by (simp add: cycles_timer_callback)
  have r: "f2 \<longrightarrow>
      ?s4 = ?s'\<lparr>compiling := Suc (compiling ?s),
                 console := console ?s @ [ChangeDetected p2, RecompilingTypeScript]\<rparr>"
    unfolding two
    by (simp add: timer_callback_def recompileTypeScript_begin_def log_def Let_def)
  have rf: "f2 \<longrightarrow>
      step (TscExit False) ?s4
        = ?s'\<lparr>console := console ?s @ [ChangeDetected p2, RecompilingTypeScript,
                                        CompilationFailed, RebuildFailed]\<rparr>"
    unfolding two
    by (simp add: timer_callback_def recompileTypeScript_begin_def timer_callback_resume_def
        log_def Let_def)
  have ri: "f2 \<longrightarrow> \<not> isRebuilding ?s \<longrightarrow>
      step (TscExit True) ?s4
        = ?s'\<lparr>building := 1,
              console := console ?s @ [ChangeDetected p2, RecompilingTypeScript,
                                       CompilationComplete, RegeneratingSite],
              isRebuilding := True\<rparr>"
    unfolding two using g
    by (simp add: timer_callback_def recompileTypeScript_begin_def timer_callback_resume_def
        regenerateSite_begin_def log_def Let_def)
  have rb: "f2 \<longrightarrow> isRebuilding ?s \<longrightarrow>
      step (TscExit True) ?s4
        = ?s'\<lparr>console := console ?s @ [ChangeDetected p2, RecompilingTypeScript,
                                        CompilationComplete, BuildInProgressSkipping]\<rparr>"
    unfolding two
    by (simp add: timer_callback_def recompileTypeScript_begin_def timer_callback_resume_def
        regenerateSite_begin_def log_def Let_def)
  have i: "\<not> f2 \<and> \<not> isRebuilding ?s \<longrightarrow>
      ?s4 = ?s'\<lparr>building := 1,
                 console := console ?s @ [ChangeDetected p2, RegeneratingSite],
                 isRebuilding := True\<rparr>"
    unfolding two using g
    by (simp add: timer_callback_def regenerateSite_begin_def log_def Let_def)
  have b: "\<not> f2 \<and> isRebuilding ?s \<longrightarrow>
      ?s4 = ?s'\<lparr>console := console ?s @ [ChangeDetected p2, BuildInProgressSkipping]\<rparr>"
    unfolding two
    by (simp add: timer_callback_def regenerateSite_begin_def log_def Let_def)
  from t c r rf ri rb i b show ?thesis
    unfolding Let_def by blast
qed

text \<open>
  Claim C7, as stated, fails for a cycle that recompiles. A timer for a TypeScript
  source file that fires while a build is in flight is not skipped: its callback starts
  the compiler, and \<^verbatim>\<open>regenerateSite\<close> reads the flag only when the compiler has exited.
  When the build in flight has settled by then, the cycle starts a second build.
\<close>

theorem recompile_cycle_in_flight_not_skipped:
  "isRebuilding (run sample_events3 dev_started)
   \<and> timers (run sample_events3 dev_started)
       = [\<lparr>handle = 1, due = 600, filePath = ''src/build.ts'', needsTypeScriptRecompile = True\<rparr>]
   \<and> console (step (Elapse 300) (run sample_events3 dev_started))
       = [ChangeDetected ''posts/hello.md'', RegeneratingSite,
          ChangeDetected ''src/build.ts'', RecompilingTypeScript]
   \<and> compiling (step (Elapse 300) (run sample_events3 dev_started)) = 1
   \<and> console (step (TscExit True) (step (BuildSettled True)
        (step (Elapse 300) (run sample_events3 dev_started))))
       = [ChangeDetected ''posts/hello.md'', RegeneratingSite,
          ChangeDetected ''src/build.ts'', RecompilingTypeScript,
          SiteRegenerated, CompilationComplete, RegeneratingSite]
   \<and> building (step (TscExit True) (step (BuildSettled True)
        (step (Elapse 300) (run sample_events3 dev_started)))) = 1"
  by (simp add: sample_events3_def dev_started_def startDevMode_watch_def watcher_on_def
      startServer_def module_init_def watcher_emit_def scheduleRebuild_def setTimeout_def
      clearTimeout_def elapse_def timer_callback_def regenerateSite_begin_def
      recompileTypeScript_begin_def timer_callback_resume_def regenerateSite_settle_def
      log_def endsWith_def DEBOUNCE_MS_def Let_def)

text \<open>
  Claim C7, amended. In every state that the dev loop reaches, at most one \<^verbatim>\<open>build()\<close>
  started by \<^verbatim>\<open>regenerateSite\<close> is running, and \<^verbatim>\<open>isRebuilding\<close> is set exactly when one
  is. The flag is read when \<^verbatim>\<open>regenerateSite\<close> is called. While it is set, a timer
  callback that does not recompile only prints that it skips: nothing is queued, armed
  or started, so the step in which such a timer fires changes the clock, the timer table
  and the console, and nothing else. A timer that recompiles starts the compiler
  when it fires, whatever the flag; when the compiler exits with success the cycle is
  skipped if a build is in flight then, and starts a build otherwise. When the build
  settles, with success or with failure, the flag is cleared.
\<close>

theorem at_most_one_build_in_flight:
  "building (run es dev_started) \<le> 1
   \<and> (isRebuilding (run es dev_started) \<longleftrightarrow> building (run es dev_started) = 1)
   \<and> (isRebuilding (run es dev_started) \<longrightarrow>
        timer_callback path False (run es dev_started)
          = (run es dev_started)\<lparr>console := console (run es dev_started)
                                     @ [ChangeDetected path, BuildInProgressSkipping]\<rparr>
      \<and> timer_callback_resume True (run es dev_started)
          = (run es dev_started)\<lparr>console := console (run es dev_started)
                                     @ [CompilationComplete, BuildInProgressSkipping]\<rparr>
      \<and> (\<forall>t d. timers (run es dev_started) = [t] \<and> due t \<le> now (run es dev_started) + d
                 \<and> \<not> needsTypeScriptRecompile t \<longrightarrow>
            step (Elapse d) (run es dev_started)
              = (run es dev_started)\<lparr>now := now (run es dev_started) + d, timers := [],
                   console := console (run es dev_started)
                              @ [ChangeDetected (filePath t), BuildInProgressSkipping]\<rparr>)
      \<and> (0 < compiling (run es dev_started) \<longrightarrow>
            step (TscExit True) (run es dev_started)
              = (run es dev_started)\<lparr>compiling := compiling (run es dev_started) - 1,
                   console := console (run es dev_started)
                              @ [CompilationComplete, BuildInProgressSkipping]\<rparr>)
      \<and> (\<forall>ok. \<not> isRebuilding (step (BuildSettled ok) (run es dev_started))
               \<and> building (step (BuildSettled ok) (run es dev_started)) = 0))
   \<and> (\<forall>t d. timers (run es dev_started) = [t] \<and> due t \<le> now (run es dev_started) + d
              \<and> needsTypeScriptRecompile t \<longrightarrow>
         step (Elapse d) (run es dev_started)
           = (run es dev_started)\<lparr>now := now (run es dev_started) + d, timers := [],
                compiling := Suc (compiling (run es dev_started)),
                console := console (run es dev_started)
                           @ [ChangeDetected (filePath t), RecompilingTypeScript]\<rparr>)
   \<and> (\<not> isRebuilding (run es dev_started) \<and> 0 < compiling (run es dev_started) \<longrightarrow>
         step (TscExit True) (run es dev_started)
           = (run es dev_started)\<lparr>compiling := compiling (run es dev_started) - 1,
                building := 1,
                console := console (run es dev_started)
                           @ [CompilationComplete, RegeneratingSite],
                isRebuilding := True\<rparr>)"
proof -
  let ?s = "run es dev_started"
  have g: "building ?s = (if isRebuilding ?s then 1 else 0)"
    using guard_inv_reachable [of es] by (simp add: guard_inv_def)
  then have a: "building ?s \<le> 1" and b: "isRebuilding ?s \<longleftrightarrow> building ?s = 1"
    by (simp_all split: if_splits)
  have c: "isRebuilding ?s \<longrightarrow>
        timer_callback path False ?s
          = ?s\<lparr>console := console ?s @ [ChangeDetected path, BuildInProgressSkipping]\<rparr>"
    by (simp add: timer_callback_def regenerateSite_begin_def log_def Let_def)
  have d: "isRebuilding ?s \<longrightarrow>
        timer_callback_resume True ?s
          = ?s\<lparr>console := console ?s @ [CompilationComplete, BuildInProgressSkipping]\<rparr>"
    by (simp add: timer_callback_resume_def regenerateSite_begin_def log_def)
  have f: "isRebuilding ?s \<longrightarrow>
        (\<forall>t d. timers ?s = [t] \<and> due t \<le> now ?s + d \<and> \<not> needsTypeScriptRecompile t \<longrightarrow>
            step (Elapse d) ?s
              = ?s\<lparr>now := now ?s + d, timers := [],
                   console := console ?s @ [ChangeDetected (filePath t), BuildInProgressSkipping]\<rparr>)"
    by (simp add: elapse_def timer_callback_def regenerateSite_begin_def log_def Let_def)
  have h: "isRebuilding ?s \<longrightarrow> 0 < compiling ?s \<longrightarrow>
        step (TscExit True) ?s
          = ?s\<lparr>compiling := compiling ?s - 1,
               console := console ?s @ [CompilationComplete, BuildInProgressSkipping]\<rparr>"
    by (simp add: timer_callback_resume_def regenerateSite_begin_def log_def)
  have e: "isRebuilding ?s \<longrightarrow>
        (\<forall>ok. \<not> isRebuilding (step (BuildSettled ok) ?s)
             \<and> building (step (BuildSettled ok) ?s) = 0)"
    using g by (simp add: regenerateSite_settle_def log_def)
  have r: "\<forall>t d. timers ?s = [t] \<and> due t \<le> now ?s + d \<and> needsTypeScriptRecompile t \<longrightarrow>
         step (Elapse d) ?s
           = ?s\<lparr>now := now ?s + d, timers := [], compiling := Suc (compiling ?s),
                console := console ?s @ [ChangeDetected (filePath t), RecompilingTypeScript]\<rparr>"
    by (simp add: elapse_def timer_callback_def recompileTypeScript_begin_def log_def Let_def)
  have i: "\<not> isRebuilding ?s \<and> 0 < compiling ?s \<longrightarrow>
         step (TscExit True) ?s
           = ?s\<lparr>compiling := compiling ?s - 1, building := 1,
                console := console ?s @ [CompilationComplete, RegeneratingSite],
                isRebuilding := True\<rparr>"
    using g by (simp add: timer_callback_resume_def regenerateSite_begin_def log_def)
  from a b c d f h e r i show ?thesis by blast
qed

subsection \<open>Watchers and the ready signal\<close>

lemma listeners_scheduleRebuild: "listeners (scheduleRebuild p f s) = listeners s"
  by (simp add: scheduleRebuild_def setTimeout_def clearTimeout_def split: option.splits)

lemma listeners_timer_callback_resume: "listeners (timer_callback_resume ok s) = listeners s"
  by (simp add: timer_callback_resume_def regenerateSite_begin_def log_def)

lemma listeners_elapse: "listeners (elapse d s) = listeners s"
proof -
  have f: "listeners (foldl (\<lambda>st tm. timer_callback (filePath tm) (needsTypeScriptRecompile tm) st) s0 xs)
          = listeners s0" for s0 and xs :: "timer list"
    by (induction xs arbitrary: s0) (simp_all add: timer_callback_timers)
  show ?thesis
    by (simp add: elapse_def Let_def f)
qed

lemma listeners_change_handler:
  "l \<in> {SrcChange, HandlePostChange, TemplatesChange} \<Longrightarrow>
   listeners (call_listener l p s) = listeners s"
  by (auto simp: listeners_scheduleRebuild)

lemma listeners_ready_listener_other:
  "w' \<noteq> w \<Longrightarrow> listeners (call_listener (ready_listener w') p s) w = listeners s w"
  by (cases w') (auto simp: watcher_on_def)

lemma lis_inv_cong: "listeners s' = listeners s \<Longrightarrow> lis_inv s' = lis_inv s"
  by (simp add: lis_inv_def)

lemma lis_inv_ready:
  "lis_inv s \<Longrightarrow> (Ready, l) \<in> set (listeners s w) \<Longrightarrow> l = ready_listener w"
  unfolding lis_inv_def by fastforce

lemma lis_inv_change:
  "lis_inv s \<Longrightarrow> (k, l) \<in> set (listeners s w) \<Longrightarrow> k \<noteq> Ready \<Longrightarrow>
   l \<in> {SrcChange, HandlePostChange, TemplatesChange}"
  unfolding lis_inv_def by fastforce

lemma lis_inv_watcher_on_ready:
  "lis_inv s \<Longrightarrow> k \<noteq> Ready \<Longrightarrow> l \<in> {SrcChange, HandlePostChange, TemplatesChange} \<Longrightarrow>
   lis_inv (watcher_on w k l s)"
  unfolding lis_inv_def watcher_on_def by auto

lemma lis_inv_call_listener: "lis_inv s \<Longrightarrow> lis_inv (call_listener l p s)"
proof (cases l)
  case SrcReady
  assume "lis_inv s"
  with SrcReady show ?thesis by (simp add: lis_inv_watcher_on_ready)
next
  case SrcChange
  assume "lis_inv s"
  with SrcChange show ?thesis by (simp add: lis_inv_cong [OF listeners_scheduleRebuild])
next
  case PostsReady
  assume "lis_inv s"
  with PostsReady show ?thesis by (simp add: lis_inv_watcher_on_ready)
next
  case HandlePostChange
  assume "lis_inv s"
  with HandlePostChange show ?thesis by (simp add: lis_inv_cong [OF listeners_scheduleRebuild])
next
  case TemplatesReady
  assume "lis_inv s"
  with TemplatesReady show ?thesis by (simp add: lis_inv_watcher_on_ready)
next
  case TemplatesChange
  assume "lis_inv s"
  with TemplatesChange show ?thesis by (simp add: lis_inv_cong [OF listeners_scheduleRebuild])
qed

lemma lis_inv_step: "lis_inv s \<Longrightarrow> lis_inv (step e s)"
proof (cases e)
  case (Watch w k p)
  assume "lis_inv s"
  then have "lis_inv (watcher_emit w k p s)"
    unfolding watcher_emit_def
    by (intro foldl_preserves [where P = lis_inv]) (simp_all add: lis_inv_call_listener)
  with Watch show ?thesis by simp
next
  case (Elapse d)
  assume "lis_inv s"
  with Elapse show ?thesis by (simp add: lis_inv_cong [OF listeners_elapse])
next
  case (TscExit ok)
  assume "lis_inv s"
  moreover have "lis_inv (timer_callback_resume ok (s\<lparr>compiling := compiling s - 1\<rparr>)) = lis_inv s"
    by (rule lis_inv_cong) (simp add: listeners_timer_callback_resume)
  ultimately show ?thesis using TscExit by simp
next
  case (BuildSettled ok)
  assume "lis_inv s"
  moreover have "lis_inv (regenerateSite_settle ok (s\<lparr>building := building s - 1\<rparr>)) = lis_inv s"
    by (rule lis_inv_cong) (simp add: regenerateSite_settle_def log_def)
  ultimately show ?thesis using BuildSettled by simp
qed

lemma lis_inv_run: "lis_inv s \<Longrightarrow> lis_inv (run es s)"
  by (induction es arbitrary: s) (simp_all add: lis_inv_step)

lemma lis_inv_dev_started: "lis_inv dev_started"
  by (simp add: lis_inv_def dev_started_def startDevMode_watch_def watcher_on_def
      startServer_def module_init_def)

lemma foldl_change_handlers:
  assumes "\<forall>l \<in> set ls. l \<in> {SrcChange, HandlePostChange, TemplatesChange}"
  shows "listeners (foldl (\<lambda>st l. call_listener l p st) s ls) = listeners s"
  using assms
proof (induction ls arbitrary: s)
  case Nil
  then show ?case by simp
next
  case (Cons l ls)
  then have "listeners (call_listener l p s) = listeners s"
    by (intro listeners_change_handler) simp
  with Cons show ?case by simp
qed

lemma foldl_ready_listeners_other:
  assumes "\<forall>l \<in> set ls. l = ready_listener w'" and "w' \<noteq> w"
  shows "listeners (foldl (\<lambda>st l. call_listener l p st) s ls) w = listeners s w"
  using assms(1)
proof (induction ls arbitrary: s)
  case Nil
  then show ?case by simp
next
  case (Cons l ls)
  then have "listeners (call_listener l p s) w = listeners s w"
    by (simp add: listeners_ready_listener_other [OF assms(2)])
  with Cons show ?case by simp
qed

lemma listeners_step_other:
  assumes inv: "lis_inv s" and e: "\<forall>p. e \<noteq> Watch w Ready p"
  shows "listeners (step e s) w = listeners s w"
proof (cases e)
  case (Watch w' k p)
  let ?ls = "map snd (filter (\<lambda>kl. fst kl = k) (listeners s w'))"
  show ?thesis
  proof (cases "k = Ready")
    case True
    with e Watch have ne: "w' \<noteq> w" by auto
    from inv True have "\<forall>l \<in> set ?ls. l = ready_listener w'"
      by (auto dest: lis_inv_ready)
    from foldl_ready_listeners_other [OF this ne] Watch show ?thesis
      by (simp add: watcher_emit_def)
  next
    case False
    with inv have "\<forall>l \<in> set ?ls. l \<in> {SrcChange, HandlePostChange, TemplatesChange}"
      by (auto dest: lis_inv_change)
    from foldl_change_handlers [OF this] Watch show ?thesis
      by (simp add: watcher_emit_def)
  qed
next
  case (Elapse d)
  then show ?thesis by (simp add: listeners_elapse)
next
  case (TscExit ok)
  then show ?thesis by (simp add: listeners_timer_callback_resume)
next
  case (BuildSettled ok)
  then show ?thesis by (simp add: regenerateSite_settle_def log_def)
qed

lemma listeners_run_other:
  assumes "lis_inv s" and "\<forall>p. Watch w Ready p \<notin> set es"
  shows "listeners (run es s) w = listeners s w"
  using assms
proof (induction es arbitrary: s)
  case Nil
  then show ?case by simp
next
  case (Cons e es)
  from Cons.prems have 1: "lis_inv (step e s)"
    by (simp add: lis_inv_step)
  from Cons.prems have 2: "\<forall>p. Watch w Ready p \<notin> set es" and 3: "\<forall>p. e \<noteq> Watch w Ready p"
    by auto
  from Cons.IH [OF 1 2] listeners_step_other [OF Cons.prems(1) 3] show ?case
    by simp
qed

lemma listeners_dev_started: "listeners dev_started w = [(Ready, ready_listener w)]"
  by (cases w)
     (simp_all add: dev_started_def startDevMode_watch_def watcher_on_def startServer_def
        module_init_def)

lemma listeners_before_ready:
  assumes "\<forall>p. Watch w Ready p \<notin> set es"
  shows "listeners (run es dev_started) w = [(Ready, ready_listener w)]"
  using listeners_run_other [OF lis_inv_dev_started assms] by (simp add: listeners_dev_started)

lemma watcher_emit_before_ready:
  assumes "listeners s w = [(Ready, ready_listener w)]" and "k \<noteq> Ready"
  shows "watcher_emit w k p s = s"
  using assms by (simp add: watcher_emit_def)

lemma watcher_emit_ready:
  assumes "listeners s w = [(Ready, ready_listener w)]"
  shows "\<exists>l. (Change, l) \<in> set (listeners (watcher_emit w Ready p s) w)"
  using assms by (cases w) (simp_all add: watcher_emit_def watcher_on_def)

text \<open>
  Claim C8. Until a watcher has signalled \<^verbatim>\<open>ready\<close>, its only listener is the \<^verbatim>\<open>ready\<close>
  listener, so every other event it emits, the \<^verbatim>\<open>add\<close> events of the initial scan among
  them, leaves the state as it is: no handler runs and no rebuild is scheduled. The
  \<^verbatim>\<open>ready\<close> signal attaches the change handler.
\<close>

theorem change_handlers_attach_on_ready:
  assumes "\<forall>p. Watch w Ready p \<notin> set es"
  shows "listeners (run es dev_started) w = [(Ready, ready_listener w)]
       \<and> (k \<noteq> Ready \<longrightarrow> step (Watch w k path) (run es dev_started) = run es dev_started)
       \<and> (\<exists>l. (Change, l) \<in> set (listeners (step (Watch w Ready path) (run es dev_started)) w))"
  using listeners_before_ready [OF assms]
  by (simp add: watcher_emit_before_ready watcher_emit_ready)

lemma run_snoc: "run (es @ [e]) s = step e (run es s)"
  by (induction es arbitrary: s) simp_all

lemma initial_scan_has_no_effect:
  assumes "\<forall>e \<in> set es. \<exists>w k p. e = Watch w k p \<and> k \<noteq> Ready"
  shows "run es dev_started = dev_started"
  using assms
proof (induction es rule: rev_induct)
  case Nil
  then show ?case by simp
next
  case (snoc e es)
  then obtain w k p where e: "e = Watch w k p" "k \<noteq> Ready"
    by auto
  from snoc have r: "run es dev_started = dev_started"
    by simp
  with e show ?case
    by (simp add: run_snoc watcher_emit_before_ready listeners_dev_started)
qed

lemma run_sample3_fields:
  "isRebuilding (run sample_events3 dev_started)"
  "compiling (run sample_events3 dev_started) = 0"
  "console (run sample_events3 dev_started) = [ChangeDetected ''posts/hello.md'', RegeneratingSite]"
  "timers (run sample_events3 dev_started)
     = [\<lparr>handle = 1, due = 600, filePath = ''src/build.ts'', needsTypeScriptRecompile = True\<rparr>]"
  "now (run sample_events3 dev_started) = 300"
  by (simp_all add: sample_events3_def dev_started_def startDevMode_watch_def watcher_on_def
      startServer_def module_init_def watcher_emit_def scheduleRebuild_def setTimeout_def
      clearTimeout_def elapse_def timer_callback_def regenerateSite_begin_def log_def
      endsWith_def DEBOUNCE_MS_def Let_def)

lemma dev_started_fields:
  "\<not> isRebuilding (run [] dev_started)"
  "console (run [] dev_started) = []"
  "compiling (run [] dev_started) = 0"
  by (simp_all add: dev_started_def startDevMode_watch_def watcher_on_def startServer_def
      module_init_def)

theorem scheduleRebuild_coalesces_witness:
  "(100::nat) < DEBOUNCE_MS
   \<and> \<not> isRebuilding (run [] dev_started)
   \<and> console (elapse DEBOUNCE_MS
        (scheduleRebuild ''posts/second.md'' False
          (elapse 100 (scheduleRebuild ''posts/first.md'' False (run [] dev_started)))))
       = [ChangeDetected ''posts/second.md'', RegeneratingSite]
   \<and> building (elapse DEBOUNCE_MS
        (scheduleRebuild ''posts/second.md'' False
          (elapse 100 (scheduleRebuild ''posts/first.md'' False (run [] dev_started))))) = 1
   \<and> isRebuilding (run sample_events dev_started)
   \<and> console (elapse DEBOUNCE_MS
        (scheduleRebuild ''src/build.ts'' True
          (elapse 100 (scheduleRebuild ''posts/second.md'' False (run sample_events dev_started)))))
       = [ChangeDetected ''posts/hello.md'', RegeneratingSite,
          ChangeDetected ''src/build.ts'', RecompilingTypeScript]
   \<and> compiling (elapse DEBOUNCE_MS
        (scheduleRebuild ''src/build.ts'' True
          (elapse 100 (scheduleRebuild ''posts/second.md'' False (run sample_events dev_started)))))
       = 1"
proof -
  have d: "(100::nat) < DEBOUNCE_MS"
    by (simp add: DEBOUNCE_MS_def)
  note idle = scheduleRebuild_coalesces
    [OF d, where es = "[]" and ?p1.0 = "''posts/first.md''" and ?f1.0 = False
       and ?p2.0 = "''posts/second.md''" and ?f2.0 = False, unfolded Let_def]
  note busy = scheduleRebuild_coalesces
    [OF d, where es = sample_events and ?p1.0 = "''posts/second.md''" and ?f1.0 = False
       and ?p2.0 = "''src/build.ts''" and ?f2.0 = True, unfolded Let_def]
  from idle dev_started_fields(1) have
    1: "elapse DEBOUNCE_MS
        (scheduleRebuild ''posts/second.md'' False
          (elapse 100 (scheduleRebuild ''posts/first.md'' False (run [] dev_started))))
      = (run [] dev_started)
          \<lparr>now := now (run [] dev_started) + 100 + DEBOUNCE_MS,
           nextHandle := Suc (Suc (nextHandle (run [] dev_started))),
           timers := [], rebuildTimeout := Some (Suc (nextHandle (run [] dev_started))),
           building := 1,
           console := console (run [] dev_started)
                      @ [ChangeDetected ''posts/second.md'', RegeneratingSite],
           isRebuilding := True\<rparr>"
    by blast
  from busy have
    2: "elapse DEBOUNCE_MS
        (scheduleRebuild ''src/build.ts'' True
          (elapse 100 (scheduleRebuild ''posts/second.md'' False (run sample_events dev_started))))
      = (run sample_events dev_started)
          \<lparr>now := now (run sample_events dev_started) + 100 + DEBOUNCE_MS,
           nextHandle := Suc (Suc (nextHandle (run sample_events dev_started))),
           timers := [],
           rebuildTimeout := Some (Suc (nextHandle (run sample_events dev_started))),
           compiling := Suc (compiling (run sample_events dev_started)),
           console := console (run sample_events dev_started)
                      @ [ChangeDetected ''src/build.ts'', RecompilingTypeScript]\<rparr>"
    by blast
  have c0: "compiling (run sample_events dev_started) = 0"
    by (simp add: sample_events_def dev_started_def startDevMode_watch_def watcher_on_def
        startServer_def module_init_def watcher_emit_def scheduleRebuild_def setTimeout_def
        clearTimeout_def elapse_def timer_callback_def regenerateSite_begin_def log_def
        endsWith_def DEBOUNCE_MS_def Let_def)
  show ?thesis
    unfolding 1 2 using d dev_started_fields
    by (simp add: run_sample_fields c0 del: run.simps)
qed

theorem at_most_one_build_in_flight_witness:
  "isRebuilding (run sample_events2 dev_started)
   \<and> building (run sample_events2 dev_started) = 1
   \<and> map filePath (timers (run sample_events2 dev_started)) = [''posts/second.md'']
   \<and> console (step (Elapse 300) (run sample_events2 dev_started))
       = [ChangeDetected ''posts/hello.md'', RegeneratingSite,
          ChangeDetected ''posts/second.md'', BuildInProgressSkipping]
   \<and> building (step (Elapse 300) (run sample_events2 dev_started)) = 1
   \<and> timers (step (Elapse 300) (run sample_events2 dev_started)) = []
   \<and> \<not> isRebuilding (step (BuildSettled True) (run sample_events2 dev_started))
   \<and> \<not> isRebuilding (step (BuildSettled False) (run sample_events2 dev_started))
   \<and> building (step (BuildSettled False) (run sample_events2 dev_started)) = 0
   \<and> map needsTypeScriptRecompile (timers (run sample_events3 dev_started)) = [True]
   \<and> console (step (Elapse 300) (run sample_events3 dev_started))
       = [ChangeDetected ''posts/hello.md'', RegeneratingSite,
          ChangeDetected ''src/build.ts'', RecompilingTypeScript]
   \<and> compiling (step (Elapse 300) (run sample_events3 dev_started)) = 1"
proof -
  note t = at_most_one_build_in_flight [of sample_events2 "''posts/second.md''"]
  note u = at_most_one_build_in_flight [of sample_events3 "''src/build.ts''"]
  from t run_sample2_fields(1) have
    skip: "\<forall>t d. timers (run sample_events2 dev_started) = [t]
             \<and> due t \<le> now (run sample_events2 dev_started) + d
             \<and> \<not> needsTypeScriptRecompile t \<longrightarrow>
            step (Elapse d) (run sample_events2 dev_started)
              = (run sample_events2 dev_started)
                  \<lparr>now := now (run sample_events2 dev_started) + d, timers := [],
                   console := console (run sample_events2 dev_started)
                              @ [ChangeDetected (filePath t), BuildInProgressSkipping]\<rparr>"
    and settle: "\<forall>ok. \<not> isRebuilding (step (BuildSettled ok) (run sample_events2 dev_started))
               \<and> building (step (BuildSettled ok) (run sample_events2 dev_started)) = 0"
    by blast+
  from u have
    comp: "\<forall>t d. timers (run sample_events3 dev_started) = [t]
             \<and> due t \<le> now (run sample_events3 dev_started) + d
             \<and> needsTypeScriptRecompile t \<longrightarrow>
            step (Elapse d) (run sample_events3 dev_started)
              = (run sample_events3 dev_started)
                  \<lparr>now := now (run sample_events3 dev_started) + d, timers := [],
                   compiling := Suc (compiling (run sample_events3 dev_started)),
                   console := console (run sample_events3 dev_started)
                              @ [ChangeDetected (filePath t), RecompilingTypeScript]\<rparr>"
    by blast
  from skip have e: "step (Elapse 300) (run sample_events2 dev_started)
      = (run sample_events2 dev_started)
          \<lparr>now := now (run sample_events2 dev_started) + 300, timers := [],
           console := console (run sample_events2 dev_started)
                      @ [ChangeDetected ''posts/second.md'', BuildInProgressSkipping]\<rparr>"
    using run_sample2_fields by (auto simp del: step.simps)
  from comp have e3: "step (Elapse 300) (run sample_events3 dev_started)
      = (run sample_events3 dev_started)
          \<lparr>now := now (run sample_events3 dev_started) + 300, timers := [],
           compiling := Suc (compiling (run sample_events3 dev_started)),
           console := console (run sample_events3 dev_started)
                      @ [ChangeDetected ''src/build.ts'', RecompilingTypeScript]\<rparr>"
    using run_sample3_fields by (auto simp del: step.simps)
  from settle show ?thesis
    unfolding e e3 by (simp add: run_sample2_fields run_sample3_fields del: step.simps)
qed

theorem change_handlers_attach_on_ready_witness:
  "(\<forall>p. Watch postsWatcher Ready p
          \<notin> set [Watch postsWatcher Add ''posts/hello.md'', Watch srcWatcher Ready ''''])
   \<and> Add \<noteq> Ready
   \<and> listeners (run [Watch postsWatcher Add ''posts/hello.md'', Watch srcWatcher Ready '''']
                   dev_started) postsWatcher
       = [(Ready, PostsReady)]
   \<and> step (Watch postsWatcher Add ''posts/world.md'')
        (run [Watch postsWatcher Add ''posts/hello.md'', Watch srcWatcher Ready ''''] dev_started)
       = run [Watch postsWatcher Add ''posts/hello.md'', Watch srcWatcher Ready ''''] dev_started"
  using change_handlers_attach_on_ready
    [of postsWatcher "[Watch postsWatcher Add ''posts/hello.md'', Watch srcWatcher Ready '''']"
        Add "''posts/world.md''"]
  by simp

end
